theory Spec2Isabelle
  imports Main "HOL-Library.Product_Lexorder"
begin

section \<open>Time model\<close>

text \<open>
  Every datetime that \<^verbatim>\<open>views.py\<close> compares or does arithmetic on is timezone-aware, and
  Python compares, subtracts and sorts aware datetimes by the absolute instant they denote.
  An instant is modelled as the (unbounded) number of microseconds since
  1970-01-01T00:00:00 UTC; \<^verbatim>\<open>astimezone(timezone.utc)\<close> is the identity on instants.
  The calendar fields of an instant are its UTC fields. The finite range of Python's
  \<^verbatim>\<open>datetime\<close> (years 1 to 9999) is not modelled.
\<close>

type_synonym instant = int

definition dt_microsecond :: "instant \<Rightarrow> int" where
  "dt_microsecond t = t mod 1000000"

definition dt_second :: "instant \<Rightarrow> int" where
  "dt_second t = (t div 1000000) mod 60"

definition dt_minute :: "instant \<Rightarrow> int" where
  "dt_minute t = (t div 60000000) mod 60"

definition dt_hour :: "instant \<Rightarrow> int" where
  "dt_hour t = (t div 3600000000) mod 24"

text \<open>The UTC calendar date, as the number of whole days since 1970-01-01.\<close>

definition dt_date :: "instant \<Rightarrow> int" where
  "dt_date t = t div 86400000000"

text \<open>The instant with the given UTC date and time-of-day fields.\<close>

definition mk_datetime :: "int \<Rightarrow> int \<Rightarrow> int \<Rightarrow> int \<Rightarrow> int \<Rightarrow> instant" where
  "mk_datetime d h m s us = (((d * 24 + h) * 60 + m) * 60 + s) * 1000000 + us"

definition timedelta_minutes :: "int \<Rightarrow> int" where
  "timedelta_minutes n = n * 60000000"

definition timedelta_hours :: "int \<Rightarrow> int" where
  "timedelta_hours n = n * 3600000000"

definition timedelta_days :: "int \<Rightarrow> int" where
  "timedelta_days n = n * 86400000000"

definition HALF_HOUR :: int where
  "HALF_HOUR = timedelta_minutes 30"

definition DEFAULT_SEARCH_DAYS :: int where
  "DEFAULT_SEARCH_DAYS = 7"

definition DEFAULT_START_HOUR :: int where
  "DEFAULT_START_HOUR = 9"

definition DEFAULT_END_HOUR :: int where
  "DEFAULT_END_HOUR = 17"

datatype error = ValueError | ValidationError

text \<open>\<^verbatim>\<open>dt.replace(second=0, microsecond=0)\<close>\<close>

definition replace_second_microsecond :: "instant \<Rightarrow> instant" where
  "replace_second_microsecond t = mk_datetime (dt_date t) (dt_hour t) (dt_minute t) 0 0"

text \<open>
  \<^verbatim>\<open>dt.replace(hour=h, minute=0, second=0, microsecond=0)\<close>; Python raises
  \<^verbatim>\<open>ValueError\<close> when the hour is not in 0..23.
\<close>

definition replace_hour :: "instant \<Rightarrow> int \<Rightarrow> error + instant" where
  "replace_hour t h =
     (if 0 \<le> h \<and> h \<le> 23 then Inr (mk_datetime (dt_date t) h 0 0 0) else Inl ValueError)"

section \<open>Interval arithmetic\<close>

definition intersect_half_open_interval ::
  "instant \<Rightarrow> instant \<Rightarrow> instant \<Rightarrow> instant \<Rightarrow> (instant \<times> instant) option" where
  "intersect_half_open_interval start1 end1 start2 end2 =
     (let start = max start1 start2; end = min end1 end2
      in if start < end then Some (start, end) else None)"

definition ceil_to_half_hour_boundary :: "instant \<Rightarrow> instant" where
  "ceil_to_half_hour_boundary dt =
     (let dt1 = (if dt_second dt \<noteq> 0 \<or> dt_microsecond dt \<noteq> 0
                 then replace_second_microsecond dt + timedelta_minutes 1
                 else replace_second_microsecond dt);
          remainder = dt_minute dt1 mod 30
      in if remainder \<noteq> 0 then dt1 + timedelta_minutes (30 - remainder) else dt1)"

definition is_within_workday_utc :: "instant \<Rightarrow> instant \<Rightarrow> int \<Rightarrow> int \<Rightarrow> error + bool" where
  "is_within_workday_utc slot_start slot_end workday_start_hour workday_end_hour =
     (case replace_hour slot_start workday_start_hour of
        Inl e \<Rightarrow> Inl e
      | Inr day_open \<Rightarrow>
          (case replace_hour slot_start workday_end_hour of
             Inl e \<Rightarrow> Inl e
           | Inr day_close \<Rightarrow> Inr (day_open \<le> slot_start \<and> slot_end \<le> day_close)))"

section \<open>Busy schedules as the provider returns them\<close>

text \<open>
  A busy block is a Python dict from field names to values. Only the truthiness of a value and
  whether it is a string matter to the code, so values are the JSON scalars.
\<close>

datatype pyval = PyNone | PyStr string | PyInt int | PyBool bool

fun truthy :: "pyval \<Rightarrow> bool" where
  "truthy PyNone = False"
| "truthy (PyStr s) = (s \<noteq> [])"
| "truthy (PyInt n) = (n \<noteq> 0)"
| "truthy (PyBool b) = b"

type_synonym block = "string \<Rightarrow> pyval option"

text \<open>\<^verbatim>\<open>d.get(k)\<close>: the value, or \<^verbatim>\<open>None\<close> when the key is absent.\<close>

definition dict_get :: "block \<Rightarrow> string \<Rightarrow> pyval" where
  "dict_get d k = (case d k of None \<Rightarrow> PyNone | Some v \<Rightarrow> v)"

text \<open>Python's \<^verbatim>\<open>a or b\<close>.\<close>

definition py_or :: "pyval \<Rightarrow> pyval \<Rightarrow> pyval" where
  "py_or a b = (if truthy a then a else b)"

text \<open>
  One entry of the provider's list. \<^verbatim>\<open>name\<close> and \<^verbatim>\<open>busy\<close> are read with
  \<^verbatim>\<open>.get\<close> and a default, so they may be absent. \<^verbatim>\<open>interviewerId\<close> is read by
  indexing and is always there in what the provider returns; an entry without it (a
  \<^verbatim>\<open>KeyError\<close> in the formatter) is not a value of this type.
\<close>

record person =
  interviewerId :: int
  name :: "string option"
  busy :: "block list option"

definition person_busy :: "person \<Rightarrow> block list" where
  "person_busy p = (case busy p of None \<Rightarrow> [] | Some bs \<Rightarrow> bs)"

definition person_name :: "person \<Rightarrow> string" where
  "person_name p = (case name p of None \<Rightarrow> ''Unknown'' | Some n \<Rightarrow> n)"

text \<open>
  A parsed datetime: its wall-clock reading and its UTC offset, both in microseconds.
  It denotes the instant \<open>wall - utcoffset\<close>.
\<close>

record datetime =
  wall :: int
  utcoffset :: int

definition instant_of :: "datetime \<Rightarrow> instant" where
  "instant_of dt = wall dt - utcoffset dt"

text \<open>
  \<^verbatim>\<open>datetime.fromisoformat\<close> belongs to the Python library and is a parameter of the
  model: it returns \<open>None\<close> where Python raises \<^verbatim>\<open>ValueError\<close>, and otherwise the
  wall-clock reading with the UTC offset of the string, if it has one.
\<close>

type_synonym fromisoformat = "string \<Rightarrow> (int \<times> int option) option"

definition parse_iso8601 :: "fromisoformat \<Rightarrow> pyval \<Rightarrow> error + datetime" where
  "parse_iso8601 fromiso iso_string =
     (case iso_string of
        PyStr s \<Rightarrow>
          (let normalized = (if s \<noteq> [] \<and> last s = CHR ''Z'' then butlast s @ ''+00:00'' else s)
           in case fromiso normalized of
                None \<Rightarrow> Inl ValueError
              | Some (w, tz) \<Rightarrow>
                  (case tz of
                     Some off \<Rightarrow> Inr \<lparr>wall = w, utcoffset = off\<rparr>
                   | None \<Rightarrow> Inr \<lparr>wall = w, utcoffset = 0\<rparr>))
      | _ \<Rightarrow> Inl ValueError)"

text \<open>\<^verbatim>\<open>datetime.strftime\<close> is a parameter as well; it formats the wall-clock reading.\<close>

type_synonym strftime = "datetime \<Rightarrow> string"

definition format_datetime_human_readable ::
  "fromisoformat \<Rightarrow> strftime \<Rightarrow> pyval \<Rightarrow> error + string" where
  "format_datetime_human_readable fromiso strf dt_str =
     (case parse_iso8601 fromiso dt_str of Inl e \<Rightarrow> Inl e | Inr dt \<Rightarrow> Inr (strf dt))"

definition raw_start :: "block \<Rightarrow> pyval" where
  "raw_start block = py_or (dict_get block ''start'') (dict_get block ''startTime'')"

definition raw_end :: "block \<Rightarrow> pyval" where
  "raw_end block = py_or (dict_get block ''end'') (dict_get block ''endTime'')"

section \<open>The human-readable busy formatter\<close>

record display =
  display_interviewerId :: int
  display_name :: string
  busyTimes :: "(string \<times> string) list"

text \<open>The body of the inner loop: the entries one block appends to \<^verbatim>\<open>busyTimes\<close>.\<close>

definition format_block :: "fromisoformat \<Rightarrow> strftime \<Rightarrow> block \<Rightarrow> error + (string \<times> string) list" where
  "format_block fromiso strf block =
     (if truthy (raw_start block) \<and> truthy (raw_end block)
      then (case format_datetime_human_readable fromiso strf (raw_start block) of
              Inl e \<Rightarrow> Inl e
            | Inr s \<Rightarrow>
                (case format_datetime_human_readable fromiso strf (raw_end block) of
                   Inl e \<Rightarrow> Inl e
                 | Inr e \<Rightarrow> Inr [(s, e)]))
      else Inr [])"

fun format_blocks ::
  "fromisoformat \<Rightarrow> strftime \<Rightarrow> (string \<times> string) list \<Rightarrow> block list
     \<Rightarrow> error + (string \<times> string) list" where
  "format_blocks fromiso strf acc [] = Inr acc"
| "format_blocks fromiso strf acc (block # blocks) =
     (case format_block fromiso strf block of
        Inl e \<Rightarrow> Inl e
      | Inr new \<Rightarrow> format_blocks fromiso strf (acc @ new) blocks)"

fun format_persons ::
  "fromisoformat \<Rightarrow> strftime \<Rightarrow> display list \<Rightarrow> person list \<Rightarrow> error + display list" where
  "format_persons fromiso strf result [] = Inr result"
| "format_persons fromiso strf result (p # ps) =
     (case format_blocks fromiso strf [] (person_busy p) of
        Inl e \<Rightarrow> Inl e
      | Inr busy_times \<Rightarrow>
          format_persons fromiso strf
            (result @ [\<lparr>display_interviewerId = interviewerId p, display_name = person_name p,
                         busyTimes = busy_times\<rparr>]) ps)"

definition format_interviewer_busy_times_human_readable ::
  "fromisoformat \<Rightarrow> strftime \<Rightarrow> person list \<Rightarrow> error + display list" where
  "format_interviewer_busy_times_human_readable fromiso strf busy_schedules =
     format_persons fromiso strf [] busy_schedules"

section \<open>The busy-timeline merger\<close>

type_synonym event = "instant \<times> int"
type_synonym window = "instant \<times> instant"

text \<open>The body of the inner \<^verbatim>\<open>for block\<close> loop: the events one block appends.\<close>

definition block_events :: "fromisoformat \<Rightarrow> instant \<Rightarrow> instant \<Rightarrow> block \<Rightarrow> error + event list" where
  "block_events fromiso search_start search_end block =
     (if \<not> truthy (raw_start block) \<or> \<not> truthy (raw_end block) then Inr []
      else case parse_iso8601 fromiso (raw_start block) of
             Inl e \<Rightarrow> Inl e
           | Inr busy_start \<Rightarrow>
               (case parse_iso8601 fromiso (raw_end block) of
                  Inl e \<Rightarrow> Inl e
                | Inr busy_end \<Rightarrow>
                    if instant_of busy_start \<ge> instant_of busy_end then Inr []
                    else (case intersect_half_open_interval (instant_of busy_start)
                                 (instant_of busy_end) search_start search_end of
                            None \<Rightarrow> Inr []
                          | Some (s, e) \<Rightarrow> Inr [(s, 1), (e, - 1)])))"

fun collect_blocks ::
  "fromisoformat \<Rightarrow> instant \<Rightarrow> instant \<Rightarrow> event list \<Rightarrow> block list \<Rightarrow> error + event list" where
  "collect_blocks fromiso ss se events [] = Inr events"
| "collect_blocks fromiso ss se events (block # blocks) =
     (case block_events fromiso ss se block of
        Inl e \<Rightarrow> Inl e
      | Inr new \<Rightarrow> collect_blocks fromiso ss se (events @ new) blocks)"

fun collect_persons ::
  "fromisoformat \<Rightarrow> instant \<Rightarrow> instant \<Rightarrow> event list \<Rightarrow> person list \<Rightarrow> error + event list" where
  "collect_persons fromiso ss se events [] = Inr events"
| "collect_persons fromiso ss se events (p # ps) =
     (case collect_blocks fromiso ss se events (person_busy p) of
        Inl e \<Rightarrow> Inl e
      | Inr events' \<Rightarrow> collect_persons fromiso ss se events' ps)"

text \<open>The inner \<^verbatim>\<open>while\<close> loop: sum the deltas of the events at timestamp \<open>t\<close>.\<close>

function sum_deltas :: "event list \<Rightarrow> instant \<Rightarrow> int \<Rightarrow> nat \<Rightarrow> int \<times> nat" where
  "sum_deltas events t delta_sum i =
     (if i < length events \<and> fst (events ! i) = t
      then sum_deltas events t (delta_sum + snd (events ! i)) (Suc i)
      else (delta_sum, i))"
  by pat_completeness auto
termination
  by (relation "measure (\<lambda>(events, t, delta_sum, i). length events - i)") auto

declare sum_deltas.simps [simp del]

lemma sum_deltas_index:
  "i \<le> snd (sum_deltas events t d i) \<and> snd (sum_deltas events t d i) \<le> max i (length events)
   \<and> (i < length events \<and> fst (events ! i) = t \<longrightarrow> i < snd (sum_deltas events t d i))"
proof (induction events t d i rule: sum_deltas.induct)
  case (1 events t delta_sum i)
  show ?case
  proof (cases "i < length events \<and> fst (events ! i) = t")
    case True
    with 1 show ?thesis by (subst (1 2 3) sum_deltas.simps) auto
  next
    case False
    then show ?thesis by (subst (1 2) sum_deltas.simps) auto
  qed
qed

text \<open>The outer \<^verbatim>\<open>while\<close> loop of the sweep.\<close>

function sweep :: "event list \<Rightarrow> window list \<Rightarrow> int \<Rightarrow> instant \<Rightarrow> nat \<Rightarrow> window list" where
  "sweep events free_windows active_busy prev_time i =
     (if i < length events
      then (let t = fst (events ! i);
                free_windows' = (if active_busy = 0 \<and> t > prev_time
                                 then free_windows @ [(prev_time, t)] else free_windows);
                r = sum_deltas events t 0 i
            in sweep events free_windows' (active_busy + fst r) t (snd r))
      else free_windows)"
  by pat_completeness auto
termination
proof (relation "measure (\<lambda>(events, free_windows, active_busy, prev_time, i). length events - i)")
  show "wf (measure (\<lambda>(events, free_windows, active_busy, prev_time, i). length events - i))"
    by simp
next
  fix events :: "event list" and free_windows :: "window list" and active_busy :: int
    and prev_time :: instant and i :: nat and x xa xb
  assume "i < length events" and "x = fst (events ! i)" and "xb = sum_deltas events x 0 i"
  then have "i < snd xb" using sum_deltas_index[of i events x 0] by simp
  with \<open>i < length events\<close>
  show "((events, xa, active_busy + fst xb, x, snd xb), (events, free_windows, active_busy, prev_time, i))
        \<in> measure (\<lambda>(events, free_windows, active_busy, prev_time, i). length events - i)"
    by simp
qed

declare sweep.simps [simp del]

definition compute_common_free_windows ::
  "fromisoformat \<Rightarrow> person list \<Rightarrow> instant \<Rightarrow> instant \<Rightarrow> error + window list" where
  "compute_common_free_windows fromiso busy_schedules search_start search_end =
     (case collect_persons fromiso search_start search_end [] busy_schedules of
        Inl e \<Rightarrow> Inl e
      | Inr events0 \<Rightarrow>
          (let events1 = events0 @ [(search_start, 0), (search_end, 0)];
               events = sort_key (\<lambda>item. (fst item, snd item)) events1
           in Inr (sweep events [] 0 search_start 0)))"

section \<open>Query validation\<close>

text \<open>
  The query parameters after the serializer's fields have parsed them: all four are optional.
\<close>

record query =
  q_start :: "instant option"
  q_end :: "instant option"
  q_start_hour :: "int option"
  q_end_hour :: "int option"

text \<open>The field declarations \<^verbatim>\<open>IntegerField(min_value=0, max_value=23)\<close>.\<close>

definition hour_field_ok :: "int option \<Rightarrow> bool" where
  "hour_field_ok h = (case h of None \<Rightarrow> True | Some v \<Rightarrow> 0 \<le> v \<and> v \<le> 23)"

text \<open>\<^verbatim>\<open>AvailabilityQuerySerializer.validate\<close>\<close>

definition validate :: "query \<Rightarrow> error + query" where
  "validate attrs =
     (if (case (q_start attrs, q_end attrs) of (Some s, Some e) \<Rightarrow> e \<le> s | _ \<Rightarrow> False)
      then Inl ValidationError
      else if (case (q_start_hour attrs, q_end_hour attrs) of (Some sh, Some eh) \<Rightarrow> sh \<ge> eh | _ \<Rightarrow> False)
      then Inl ValidationError
      else Inr attrs)"

text \<open>
  \<^verbatim>\<open>q.is_valid(raise_exception=True)\<close>: the field checks run first, then
  \<^verbatim>\<open>validate\<close>; either raises \<^verbatim>\<open>ValidationError\<close>.
\<close>

definition is_valid :: "query \<Rightarrow> error + query" where
  "is_valid attrs =
     (if hour_field_ok (q_start_hour attrs) \<and> hour_field_ok (q_end_hour attrs)
      then validate attrs else Inl ValidationError)"

section \<open>The slot expander and the view\<close>

type_synonym slot = "instant \<times> instant"

text \<open>
  The \<^verbatim>\<open>while slot_start <= last_valid_start\<close> loop. A slot is kept as its pair of
  UTC instants; the code emits their ISO-8601 renderings.
\<close>

function expand_window ::
  "int \<Rightarrow> int \<Rightarrow> int \<Rightarrow> instant \<Rightarrow> slot list \<Rightarrow> instant \<Rightarrow> error + slot list" where
  "expand_window duration_delta workday_start_hour workday_end_hour last_valid_start
       available_slots slot_start =
     (if slot_start \<le> last_valid_start
      then (let slot_end = slot_start + duration_delta
            in case is_within_workday_utc slot_start slot_end workday_start_hour workday_end_hour of
                 Inl e \<Rightarrow> Inl e
               | Inr within_hours \<Rightarrow>
                   expand_window duration_delta workday_start_hour workday_end_hour last_valid_start
                     (if within_hours then available_slots @ [(slot_start, slot_end)]
                      else available_slots)
                     (slot_start + HALF_HOUR))
      else Inr available_slots)"
  by pat_completeness auto
termination
  by (relation "measure (\<lambda>(d, wsh, weh, last_valid_start, acc, slot_start).
                  nat (last_valid_start - slot_start + 1))")
     (auto simp: HALF_HOUR_def timedelta_minutes_def)

declare expand_window.simps [simp del]

text \<open>The \<^verbatim>\<open>for window_start, window_end in free_windows\<close> loop.\<close>

fun expand_windows ::
  "int \<Rightarrow> int \<Rightarrow> int \<Rightarrow> instant \<Rightarrow> slot list \<Rightarrow> window list \<Rightarrow> error + slot list" where
  "expand_windows duration_delta wsh weh min_slot_start available_slots [] = Inr available_slots"
| "expand_windows duration_delta wsh weh min_slot_start available_slots
       ((window_start, window_end) # free_windows) =
     (let slot_start = ceil_to_half_hour_boundary (max window_start min_slot_start);
          last_valid_start = window_end - duration_delta
      in case expand_window duration_delta wsh weh last_valid_start available_slots slot_start of
           Inl e \<Rightarrow> Inl e
         | Inr available_slots' \<Rightarrow>
             expand_windows duration_delta wsh weh min_slot_start available_slots' free_windows)"

record template =
  template_id :: int
  template_name :: string
  duration :: int
  interviewers :: "int list"

fun show_nat :: "nat \<Rightarrow> string" where
  "show_nat n = (if n < 10 then [''0123456789'' ! n]
                 else show_nat (n div 10) @ [''0123456789'' ! (n mod 10)])"

definition show_int :: "int \<Rightarrow> string" where
  "show_int i = (if i < 0 then CHR ''-'' # show_nat (nat (- i)) else show_nat (nat i))"

record payload =
  interviewId :: int
  payload_name :: string
  durationMinutes :: int
  payload_interviewers :: "(int \<times> string) list"
  availableSlots :: "slot list"
  workHours :: "int \<times> int"
  hr_availableSlots :: "(string \<times> string) list"
  hr_interviewerBusyTimes :: "display list"
  hr_workHours :: string

datatype response = Response_404 string | Response_400 string | Response_200 payload

text \<open>
  \<^verbatim>\<open>InterviewAvailabilityView.get\<close>. Its surroundings are parameters: the clock reading
  \<open>now\<close>, the result of the template lookup (\<open>None\<close> for \<^verbatim>\<open>DoesNotExist\<close>), the parsed
  query, and the schedule provider \<^verbatim>\<open>get_free_busy_data\<close>. The result is the outcome (a
  response, or the exception that leaves the view) together with the list of calls made to
  the provider, each recorded by its argument. The human-readable mirror of a slot re-parses
  the slot's own ISO-8601 rendering, which gives back the slot's UTC datetime.
\<close>

definition availability_view_get ::
  "fromisoformat \<Rightarrow> strftime \<Rightarrow> (int list \<Rightarrow> person list) \<Rightarrow> instant \<Rightarrow> template option \<Rightarrow> query
     \<Rightarrow> (error + response) \<times> int list list" where
  "availability_view_get fromiso strf get_free_busy_data now template_lookup query_params =
     (case template_lookup of
        None \<Rightarrow> (Inr (Response_404 ''Interview template not found''), [])
      | Some template \<Rightarrow>
          (let duration_minutes = duration template;
               duration_delta = timedelta_minutes duration_minutes
           in case is_valid query_params of
                Inl e \<Rightarrow> (Inl e, [])
              | Inr vd \<Rightarrow>
                  (let now_utc = now;
                       earliest_allowed = now_utc + timedelta_hours 24;
                       search_start = (case q_start vd of Some s \<Rightarrow> s | None \<Rightarrow> earliest_allowed);
                       search_end = (case q_end vd of Some e \<Rightarrow> e
                                     | None \<Rightarrow> search_start + timedelta_days DEFAULT_SEARCH_DAYS)
                   in if search_end \<le> search_start
                      then (Inr (Response_400 ''end must be after start''), [])
                      else
                        (let workday_start_hour =
                               (case q_start_hour vd of Some h \<Rightarrow> h | None \<Rightarrow> DEFAULT_START_HOUR);
                             workday_end_hour =
                               (case q_end_hour vd of Some h \<Rightarrow> h | None \<Rightarrow> DEFAULT_END_HOUR)
                         in if workday_start_hour \<ge> workday_end_hour
                            then (Inr (Response_400 ''end_hour must be after start_hour''), [])
                            else
                              (let min_slot_start =
                                     ceil_to_half_hour_boundary (max search_start earliest_allowed);
                                   interviewer_ids = interviewers template;
                                   busy_schedules = get_free_busy_data interviewer_ids;
                                   calls = [interviewer_ids]
                               in case compute_common_free_windows fromiso busy_schedules
                                         search_start search_end of
                                    Inl e \<Rightarrow> (Inl e, calls)
                                  | Inr free_windows \<Rightarrow>
                                      (case expand_windows duration_delta workday_start_hour
                                              workday_end_hour min_slot_start [] free_windows of
                                         Inl e \<Rightarrow> (Inl e, calls)
                                       | Inr available_slots \<Rightarrow>
                                           (case format_interviewer_busy_times_human_readable
                                                   fromiso strf busy_schedules of
                                              Inl e \<Rightarrow> (Inl e, calls)
                                            | Inr human_readable_busy \<Rightarrow>
  (let human_readable_slots =
         map (\<lambda>(s, e). (strf \<lparr>wall = s, utcoffset = 0\<rparr>, strf \<lparr>wall = e, utcoffset = 0\<rparr>))
           available_slots;
       interviewer_names = map_of (rev (map (\<lambda>p. (interviewerId p, person_name p)) busy_schedules))
   in (Inr (Response_200
        \<lparr>interviewId = template_id template,
         payload_name = template_name template,
         durationMinutes = duration_minutes,
         payload_interviewers =
           map (\<lambda>pid. (pid, case interviewer_names pid of None \<Rightarrow> ''Unknown'' | Some n \<Rightarrow> n))
             interviewer_ids,
         availableSlots = available_slots,
         workHours = (workday_start_hour, workday_end_hour),
         hr_availableSlots = human_readable_slots,
         hr_interviewerBusyTimes = human_readable_busy,
         hr_workHours = show_int workday_start_hour @ '':00 - '' @ show_int workday_end_hour @ '':00''\<rparr>),
       calls)))))))))"

section \<open>Notions used to state the properties\<close>

text \<open>Two half-open intervals overlap.\<close>

definition overlaps :: "instant \<times> instant \<Rightarrow> instant \<times> instant \<Rightarrow> bool" where
  "overlaps i j = (max (fst i) (fst j) < min (snd i) (snd j))"

text \<open>
  The valid busy interval of a block, if it has one: both raw fields present and parsed,
  and start before end.
\<close>

definition block_interval :: "fromisoformat \<Rightarrow> block \<Rightarrow> (instant \<times> instant) option" where
  "block_interval fromiso block =
     (if truthy (raw_start block) \<and> truthy (raw_end block)
      then (case (parse_iso8601 fromiso (raw_start block), parse_iso8601 fromiso (raw_end block)) of
              (Inr s, Inr e) \<Rightarrow>
                if instant_of s < instant_of e then Some (instant_of s, instant_of e) else None
            | _ \<Rightarrow> None)
      else None)"

definition person_intervals :: "fromisoformat \<Rightarrow> person \<Rightarrow> (instant \<times> instant) list" where
  "person_intervals fromiso p = List.map_filter (block_interval fromiso) (person_busy p)"

definition busy_intervals :: "fromisoformat \<Rightarrow> person list \<Rightarrow> (instant \<times> instant) list" where
  "busy_intervals fromiso busy_schedules = concat (map (person_intervals fromiso) busy_schedules)"

text \<open>
  A block is readable when parsing cannot raise on it: a block whose two raw fields are
  both truthy has strings there that \<^verbatim>\<open>fromisoformat\<close> accepts.
\<close>

definition block_readable :: "fromisoformat \<Rightarrow> block \<Rightarrow> bool" where
  "block_readable fromiso block =
     (if truthy (raw_start block) \<and> truthy (raw_end block)
      then (case (parse_iso8601 fromiso (raw_start block), parse_iso8601 fromiso (raw_end block)) of
              (Inr s, Inr e) \<Rightarrow> True
            | _ \<Rightarrow> False)
      else True)"

definition schedules_readable :: "fromisoformat \<Rightarrow> person list \<Rightarrow> bool" where
  "schedules_readable fromiso busy_schedules =
     list_all (\<lambda>p. list_all (block_readable fromiso) (person_busy p)) busy_schedules"

text \<open>The points of time covered by a list of half-open windows.\<close>

definition covered :: "(instant \<times> instant) list \<Rightarrow> instant set" where
  "covered ws = (\<Union>w \<in> set ws. {fst w ..< snd w})"

text \<open>
  A small table standing in for \<^verbatim>\<open>datetime.fromisoformat\<close> in the concrete examples:
  four timestamps of 2030-01-01 (day 21915 of the epoch), with offset zero.
\<close>

definition example_fromisoformat :: fromisoformat where
  "example_fromisoformat s =
     (if s = ''2030-01-01T10:00:00+00:00'' then Some (mk_datetime 21915 10 0 0 0, Some 0)
      else if s = ''2030-01-01T11:00:00+00:00'' then Some (mk_datetime 21915 11 0 0 0, Some 0)
      else if s = ''2030-01-01T12:00:00+00:00'' then Some (mk_datetime 21915 12 0 0 0, Some 0)
      else if s = ''2030-01-01T13:00:00+00:00'' then Some (mk_datetime 21915 13 0 0 0, Some 0)
      else None)"

text \<open>
  Notions for the sweep: the sum of the deltas of the events at or before an instant, the
  timestamp of the last event, and a list of non-empty windows that follow one another
  from an instant on.
\<close>

definition event_count :: "event list \<Rightarrow> instant \<Rightarrow> int" where
  "event_count es x = sum_list (map snd (filter (\<lambda>e. fst e \<le> x) es))"

definition last_time :: "instant \<Rightarrow> event list \<Rightarrow> instant" where
  "last_time p es = (if es = [] then p else fst (last es))"

fun ascending_from :: "instant \<Rightarrow> window list \<Rightarrow> bool" where
  "ascending_from p [] = True"
| "ascending_from p (w # ws) = (p \<le> fst w \<and> fst w < snd w \<and> ascending_from (snd w) ws)"

text \<open>
  A busy interval clipped to the search window (empty when its bounds cross), and the two
  sweep events the merger emits for a valid busy interval.
\<close>

definition clip :: "instant \<Rightarrow> instant \<Rightarrow> instant \<times> instant \<Rightarrow> instant \<times> instant" where
  "clip ss se iv = (max (fst iv) ss, min (snd iv) se)"

definition interval_events :: "instant \<Rightarrow> instant \<Rightarrow> instant \<times> instant \<Rightarrow> event list" where
  "interval_events ss se iv =
     (case intersect_half_open_interval (fst iv) (snd iv) ss se of
        None \<Rightarrow> []
      | Some (s, e) \<Rightarrow> [(s, 1), (e, - 1)])"

text \<open>
  The example of two touching busy intervals: A is busy from 10:00 to 11:00 and B from 11:00
  to 12:00 on 2030-01-01.
\<close>

definition touching_schedules :: "person list" where
  "touching_schedules =
     [\<lparr>interviewerId = 1, name = Some ''A'',
       busy = Some [[''start'' \<mapsto> PyStr ''2030-01-01T10:00:00Z'',
                     ''end'' \<mapsto> PyStr ''2030-01-01T11:00:00Z'']]\<rparr>,
      \<lparr>interviewerId = 2, name = Some ''B'',
       busy = Some [[''start'' \<mapsto> PyStr ''2030-01-01T11:00:00Z'',
                     ''end'' \<mapsto> PyStr ''2030-01-01T12:00:00Z'']]\<rparr>]"


text \<open>Apply a function to the busy list of a schedule entry, where it has one.\<close>

definition map_busy :: "(block list \<Rightarrow> block list) \<Rightarrow> person \<Rightarrow> person" where
  "map_busy g p = p\<lparr>busy := map_option g (busy p)\<rparr>"



text \<open>
  A block that carries only the legacy keys, rewritten to carry the same values under
  \<^verbatim>\<open>start\<close> and \<^verbatim>\<open>end\<close>; any other block is left as it is.
\<close>

definition legacy_to_current :: "block \<Rightarrow> block" where
  "legacy_to_current b =
     (if b ''start'' = None \<and> b ''end'' = None
      then b(''start'' := b ''startTime'', ''end'' := b ''endTime'',
             ''startTime'' := None, ''endTime'' := None)
      else b)"

text \<open>The touching example written with the legacy keys.\<close>

definition legacy_schedules :: "person list" where
  "legacy_schedules =
     [\<lparr>interviewerId = 1, name = Some ''A'',
       busy = Some [[''startTime'' \<mapsto> PyStr ''2030-01-01T10:00:00Z'',
                     ''endTime'' \<mapsto> PyStr ''2030-01-01T11:00:00Z'']]\<rparr>,
      \<lparr>interviewerId = 2, name = Some ''B'',
       busy = Some [[''startTime'' \<mapsto> PyStr ''2030-01-01T11:00:00Z'',
                     ''endTime'' \<mapsto> PyStr ''2030-01-01T12:00:00Z'']]\<rparr>]"

text \<open>The search window and the workday hours of a request after the view's defaults.\<close>

definition resolved_search_start :: "instant \<Rightarrow> query \<Rightarrow> instant" where
  "resolved_search_start now q = (case q_start q of Some s \<Rightarrow> s | None \<Rightarrow> now + timedelta_hours 24)"

definition resolved_search_end :: "instant \<Rightarrow> query \<Rightarrow> instant" where
  "resolved_search_end now q =
     (case q_end q of Some e \<Rightarrow> e
      | None \<Rightarrow> resolved_search_start now q + timedelta_days DEFAULT_SEARCH_DAYS)"

definition resolved_start_hour :: "query \<Rightarrow> int" where
  "resolved_start_hour q = (case q_start_hour q of Some h \<Rightarrow> h | None \<Rightarrow> DEFAULT_START_HOUR)"

definition resolved_end_hour :: "query \<Rightarrow> int" where
  "resolved_end_hour q = (case q_end_hour q of Some h \<Rightarrow> h | None \<Rightarrow> DEFAULT_END_HOUR)"

text \<open>A template and a query for the concrete runs of the view.\<close>

definition example_template :: template where
  "example_template = \<lparr>template_id = 7, template_name = ''Tech Interview'', duration = 60,
                        interviewers = [1, 2]\<rparr>"

definition example_query :: query where
  "example_query = \<lparr>q_start = Some (mk_datetime 21915 9 0 0 0), q_end = Some (mk_datetime 21915 13 0 0 0),
                     q_start_hour = Some 9, q_end_hour = Some 17\<rparr>"

text \<open>A query with only an end, which lies before the defaulted start.\<close>

definition late_end_query :: query where
  "late_end_query = \<lparr>q_start = None, q_end = Some (mk_datetime 21915 12 0 0 0),
                      q_start_hour = None, q_end_hour = None\<rparr>"

text \<open>
  A small table standing in for \<^verbatim>\<open>strftime\<close> in the concrete examples: it names three
  wall-clock readings of 2030-01-01.
\<close>

definition example_strftime :: strftime where
  "example_strftime dt =
     (if wall dt = mk_datetime 21915 10 0 0 0 then ''10:00''
      else if wall dt = mk_datetime 21915 11 0 0 0 then ''11:00''
      else if wall dt = mk_datetime 21915 12 0 0 0 then ''12:00''
      else ''other'')"

section \<open>Properties of the time fields and of the ceiling\<close>

lemma div_hour_minute: "(t::int) div 3600000000 = t div 60000000 div 60"
  using zdiv_zmult2_eq[of 60 t 60000000] by simp

lemma div_day_minute: "(t::int) div 86400000000 = t div 60000000 div 60 div 24"
  using zdiv_zmult2_eq[of 24 t 3600000000] div_hour_minute[of t] by simp

lemma div_minute_second: "(t::int) div 60000000 = t div 1000000 div 60"
  using zdiv_zmult2_eq[of 60 t 1000000] by simp

lemma minutes_recompose:
  fixes m :: int
  shows "(m div 60 div 24 * 24 + (m div 60) mod 24) * 60 + m mod 60 = m"
  by simp

lemma replace_sm: "replace_second_microsecond t = t - t mod 60000000"
proof -
  have "replace_second_microsecond t = (t div 60000000) * 60000000"
    unfolding replace_second_microsecond_def mk_datetime_def dt_date_def dt_hour_def dt_minute_def
      div_day_minute div_hour_minute
    by (simp only: minutes_recompose mult_zero_left mult_zero_right add_0_right mult.assoc add_0
          mult_1 mult_1_right)
  then show ?thesis by (simp add: minus_mod_eq_div_mult)
qed

lemma mod_minute_split:
  fixes t :: int
  shows "t mod 60000000 = (t div 1000000 mod 60) * 1000000 + t mod 1000000"
  using zmod_zmult2_eq[of 60 t 1000000] by simp

lemma has_residue: "(dt_second t \<noteq> 0 \<or> dt_microsecond t \<noteq> 0) \<longleftrightarrow> t mod 60000000 \<noteq> 0"
proof -
  have "0 \<le> t div 1000000 mod 60" "0 \<le> t mod 1000000" by simp_all
  then show ?thesis
    unfolding dt_second_def dt_microsecond_def mod_minute_split[of t]
    by (smt (verit) mult_nonneg_nonneg mult_eq_0_iff)
qed

lemma minute_mod30: "dt_minute t mod 30 = (t div 60000000) mod 30"
  unfolding dt_minute_def by (simp add: mod_mod_cancel)

lemma next_minute_gen:
  fixes t M :: int
  assumes "0 < M"
  defines "dt1 \<equiv> (if t mod M \<noteq> 0 then t - t mod M + M else t - t mod M)"
  shows "dt1 mod M = 0 \<and> t \<le> dt1 \<and> dt1 < t + M"
proof -
  have "0 \<le> t mod M" "t mod M < M" using assms(1) by simp_all
  moreover have "(t - t mod M) mod M = 0" by (simp add: minus_mod_eq_mult_div)
  moreover have "(t - t mod M + M) mod M = 0" by (simp add: minus_mod_eq_mult_div)
  ultimately show ?thesis unfolding dt1_def by (auto simp del: minus_mod_self2)
qed

lemma snap_half_hour_gen:
  fixes d M :: int
  assumes "d mod M = 0"
  defines "r \<equiv> (d div M) mod 30"
  defines "res \<equiv> (if r \<noteq> 0 then d + (30 - r) * M else d)"
  shows "res mod (30 * M) = 0 \<and> (0 \<le> M \<longrightarrow> d \<le> res \<and> res \<le> d + 29 * M)"
proof -
  define q where "q = d div M"
  have d: "d = q * M" using assms(1) div_mult_mod_eq[of d M] unfolding q_def by simp
  have r: "0 \<le> r" "r < 30" unfolding r_def by simp_all
  have "q = (q div 30) * 30 + r" unfolding r_def q_def by simp
  then have "q * M = ((q div 30) * 30 + r) * M" by simp
  then have d2: "d = (q div 30) * (30 * M) + r * M" using d by (simp add: algebra_simps)
  show ?thesis
  proof (cases "r = 0")
    case True
    then show ?thesis unfolding res_def using d2 by simp
  next
    case False
    have "d + (30 - r) * M = (q div 30 + 1) * (30 * M)" using d2 by (simp add: algebra_simps)
    then have "(d + (30 - r) * M) mod (30 * M) = 0" by (metis mod_mult_self2_is_0)
    moreover have "0 \<le> M \<Longrightarrow> 0 \<le> (30 - r) * M \<and> (30 - r) * M \<le> 29 * M"
      using r False by (simp add: mult_right_mono)
    ultimately show ?thesis unfolding res_def using False by auto
  qed
qed

lemma dvd_small_zero:
  fixes z H :: int
  assumes "z mod H = 0" "\<bar>z\<bar> < H"
  shows "z = 0"
proof (rule ccontr)
  assume "z \<noteq> 0"
  moreover have "H dvd z" using assms(1) by (simp add: dvd_eq_mod_eq_0)
  ultimately have "\<bar>H\<bar> \<le> \<bar>z\<bar>" by (rule dvd_imp_le_int)
  with assms(2) show False by simp
qed

lemma ceil_char:
  "ceil_to_half_hour_boundary t mod 1800000000 = 0 \<and> t \<le> ceil_to_half_hour_boundary t
   \<and> ceil_to_half_hour_boundary t < t + 1800000000"
proof -
  define M :: int where "M = 60000000"
  define dt1 where "dt1 = (if t mod M \<noteq> 0 then t - t mod M + M else t - t mod M)"
  define res where "res = (if (dt1 div M) mod 30 \<noteq> 0 then dt1 + (30 - (dt1 div M) mod 30) * M else dt1)"
  have c: "ceil_to_half_hour_boundary t = res"
    unfolding ceil_to_half_hour_boundary_def Let_def has_residue replace_sm minute_mod30
      timedelta_minutes_def dt1_def res_def M_def
    by simp
  have M: "0 < M" "30 * M = 1800000000" unfolding M_def by simp_all
  have n: "dt1 mod M = 0 \<and> t \<le> dt1 \<and> dt1 < t + M"
    unfolding dt1_def using M(1) by (rule next_minute_gen)
  from snap_half_hour_gen[of dt1 M] n
  have "res mod (30 * M) = 0 \<and> dt1 \<le> res \<and> res \<le> dt1 + 29 * M"
    unfolding res_def using M(1) by simp
  then have "res mod (30 * M) = 0 \<and> t \<le> res \<and> res < t + 30 * M"
    using n by linarith
  then show ?thesis unfolding c M(2) .
qed

lemma ceil_unique:
  fixes c :: int
  assumes "c mod 1800000000 = 0" "t \<le> c" "c < t + 1800000000"
  shows "ceil_to_half_hour_boundary t = c"
proof -
  let ?k = "ceil_to_half_hour_boundary t"
  from ceil_char[of t] have k: "?k mod 1800000000 = 0" "t \<le> ?k" "?k < t + 1800000000" by auto
  have "(?k - c) mod 1800000000 = 0" using k(1) assms(1) by (simp add: mod_diff_eq[symmetric])
  moreover have "\<bar>?k - c\<bar> < 1800000000" using k assms by linarith
  ultimately have "?k - c = 0" by (rule dvd_small_zero)
  then show ?thesis by simp
qed

lemma ceil_mono: "x \<le> y \<Longrightarrow> ceil_to_half_hour_boundary x \<le> ceil_to_half_hour_boundary y"
proof (rule ccontr)
  assume xy: "x \<le> y" and "\<not> ceil_to_half_hour_boundary x \<le> ceil_to_half_hour_boundary y"
  then have lt: "ceil_to_half_hour_boundary y < ceil_to_half_hour_boundary x" by simp
  let ?a = "ceil_to_half_hour_boundary x" and ?b = "ceil_to_half_hour_boundary y"
  from ceil_char[of x] ceil_char[of y] have
    a: "?a mod 1800000000 = 0" "?a < x + 1800000000" and b: "?b mod 1800000000 = 0" "y \<le> ?b" by auto
  have "(?a - ?b) mod 1800000000 = 0" using a(1) b(1) by (simp add: mod_diff_eq[symmetric])
  moreover have "\<bar>?a - ?b\<bar> < 1800000000" using lt a b xy by linarith
  ultimately have "?a - ?b = 0" by (rule dvd_small_zero)
  with lt show False by simp
qed

section \<open>Workday containment\<close>

lemma mk_datetime_hour: "mk_datetime d h 0 0 0 = (d * 24 + h) * 3600000000"
  unfolding mk_datetime_def by simp

lemma mk_datetime_fields:
  assumes "0 \<le> h" "h \<le> 23"
  shows "dt_date (mk_datetime d h 0 0 0) = d" "dt_hour (mk_datetime d h 0 0 0) = h"
    "dt_minute (mk_datetime d h 0 0 0) = 0" "dt_second (mk_datetime d h 0 0 0) = 0"
    "dt_microsecond (mk_datetime d h 0 0 0) = 0"
proof -
  let ?t = "mk_datetime d h 0 0 0"
  have hr: "?t div 3600000000 = d * 24 + h" unfolding mk_datetime_hour by simp
  have "?t div 86400000000 = (?t div 3600000000) div 24"
    using zdiv_zmult2_eq[of 24 ?t 3600000000] by simp
  then show "dt_date ?t = d" unfolding dt_date_def hr using assms by simp
  show "dt_hour ?t = h" unfolding dt_hour_def hr using assms by simp
  have mn: "?t = ((d * 24 + h) * 60) * 60000000" unfolding mk_datetime_hour by simp
  have "?t div 60000000 = (d * 24 + h) * 60" unfolding mn by simp
  then show "dt_minute ?t = 0" unfolding dt_minute_def by simp
  have sc: "?t = ((d * 24 + h) * 3600) * 1000000" unfolding mk_datetime_hour by simp
  have "?t div 1000000 = (d * 24 + h) * 3600" unfolding sc by simp
  then show "dt_second ?t = 0" unfolding dt_second_def by simp
  show "dt_microsecond ?t = 0" unfolding dt_microsecond_def sc by simp
qed

lemma date_floor: "dt_date t * 86400000000 \<le> t" "t < (dt_date t + 1) * 86400000000"
proof -
  have "t = dt_date t * 86400000000 + t mod 86400000000" unfolding dt_date_def by simp
  moreover have "0 \<le> t mod 86400000000" "t mod 86400000000 < 86400000000" by simp_all
  moreover have "(dt_date t + 1) * 86400000000 = dt_date t * 86400000000 + 86400000000"
    by (simp add: algebra_simps)
  ultimately show "dt_date t * 86400000000 \<le> t" "t < (dt_date t + 1) * 86400000000"
    by linarith+
qed

lemma is_within_workday_eq:
  assumes "0 \<le> wsh" "wsh \<le> 23" "0 \<le> weh" "weh \<le> 23"
  shows "is_within_workday_utc s e wsh weh =
      Inr (mk_datetime (dt_date s) wsh 0 0 0 \<le> s \<and> e \<le> mk_datetime (dt_date s) weh 0 0 0)"
  using assms unfolding is_within_workday_utc_def replace_hour_def by simp

text \<open>
  Claim C6 (workday containment). For workday hours in 0..23, \<^verbatim>\<open>is_within_workday_utc\<close>
  answers whether \<open>dayOpen \<le> s\<close> and \<open>e \<le> dayClose\<close>, where \<open>dayOpen\<close> and \<open>dayClose\<close>
  are the instants on the UTC date of \<open>s\<close> at the start hour and the end hour, with zero
  minutes, seconds and microseconds. A slot that ends exactly at \<open>dayClose\<close> passes (when it
  starts at or after \<open>dayOpen\<close>), and a slot whose end lies on a later date than its start fails.
\<close>

theorem workday_containment:
  assumes "0 \<le> wsh" "wsh \<le> 23" "0 \<le> weh" "weh \<le> 23"
  shows "let dayOpen = mk_datetime (dt_date s) wsh 0 0 0;
             dayClose = mk_datetime (dt_date s) weh 0 0 0
         in dt_date dayOpen = dt_date s \<and> dt_hour dayOpen = wsh \<and> dt_minute dayOpen = 0
            \<and> dt_second dayOpen = 0 \<and> dt_microsecond dayOpen = 0
          \<and> dt_date dayClose = dt_date s \<and> dt_hour dayClose = weh \<and> dt_minute dayClose = 0
            \<and> dt_second dayClose = 0 \<and> dt_microsecond dayClose = 0
          \<and> is_within_workday_utc s e wsh weh = Inr (dayOpen \<le> s \<and> e \<le> dayClose)
          \<and> (dayOpen \<le> s \<and> e = dayClose \<longrightarrow> is_within_workday_utc s e wsh weh = Inr True)
          \<and> (dt_date s < dt_date e \<longrightarrow> is_within_workday_utc s e wsh weh = Inr False)"
proof -
  define dayOpen where "dayOpen = mk_datetime (dt_date s) wsh 0 0 0"
  define dayClose where "dayClose = mk_datetime (dt_date s) weh 0 0 0"
  have eq: "is_within_workday_utc s e wsh weh = Inr (dayOpen \<le> s \<and> e \<le> dayClose)"
    unfolding dayOpen_def dayClose_def using assms by (rule is_within_workday_eq)
  have later: "\<not> e \<le> dayClose" if "dt_date s < dt_date e"
  proof -
    have "dayClose = (dt_date s * 24 + weh) * 3600000000"
      unfolding dayClose_def by (rule mk_datetime_hour)
    then have "dayClose < (dt_date s + 1) * 86400000000" using assms(4) by simp
    also have "\<dots> \<le> dt_date e * 86400000000" using that by simp
    also have "\<dots> \<le> e" by (rule date_floor)
    finally show ?thesis by simp
  qed
  have fields: "dt_date dayOpen = dt_date s" "dt_hour dayOpen = wsh" "dt_minute dayOpen = 0"
    "dt_second dayOpen = 0" "dt_microsecond dayOpen = 0"
    "dt_date dayClose = dt_date s" "dt_hour dayClose = weh" "dt_minute dayClose = 0"
    "dt_second dayClose = 0" "dt_microsecond dayClose = 0"
    unfolding dayOpen_def dayClose_def using assms by (simp_all add: mk_datetime_fields)
  show ?thesis
    unfolding Let_def dayOpen_def[symmetric] dayClose_def[symmetric] eq fields
    using later by simp
qed

theorem workday_containment_witness:
  "is_within_workday_utc (mk_datetime 21915 16 0 0 0) (mk_datetime 21915 17 0 0 0) 9 17 = Inr True
   \<and> is_within_workday_utc (mk_datetime 21915 23 30 0 0) (mk_datetime 21916 0 30 0 0) 0 23 = Inr False"
proof -
  have a: "dt_date (mk_datetime 21915 16 0 0 0) = 21915"
    by (rule mk_datetime_fields) simp_all
  have b: "dt_date (mk_datetime 21915 23 30 0 0) < dt_date (mk_datetime 21916 0 30 0 0)"
    unfolding dt_date_def mk_datetime_def by simp
  have c: "mk_datetime (dt_date (mk_datetime 21915 16 0 0 0)) 9 0 0 0 \<le> mk_datetime 21915 16 0 0 0"
    unfolding a unfolding mk_datetime_def by simp
  have d: "mk_datetime 21915 17 0 0 0 = mk_datetime (dt_date (mk_datetime 21915 16 0 0 0)) 17 0 0 0"
    unfolding a ..
  have h: "(0::int) \<le> 9" "(9::int) \<le> 23" "(0::int) \<le> 17" "(17::int) \<le> 23"
    "(0::int) \<le> 0" "(0::int) \<le> 23" "(23::int) \<le> 23" by simp_all
  from workday_containment[OF h(1-4), of "mk_datetime 21915 16 0 0 0" "mk_datetime 21915 17 0 0 0",
      unfolded Let_def] c d
  have 1: "is_within_workday_utc (mk_datetime 21915 16 0 0 0) (mk_datetime 21915 17 0 0 0) 9 17 = Inr True"
    by blast
  from workday_containment[OF h(5,6,6,7), of "mk_datetime 21915 23 30 0 0" "mk_datetime 21916 0 30 0 0",
      unfolded Let_def] b
  have 2: "is_within_workday_utc (mk_datetime 21915 23 30 0 0) (mk_datetime 21916 0 30 0 0) 0 23 = Inr False"
    by blast
  from 1 2 show ?thesis by (rule conjI)
qed

section \<open>The ceiling: boundary values, residues and idempotence\<close>

lemma ceil_on_boundary:
  assumes "dt_minute t mod 30 = 0" "dt_second t = 0" "dt_microsecond t = 0"
  shows "ceil_to_half_hour_boundary t = t"
proof -
  have z: "t mod 60000000 = 0" using has_residue[of t] assms(2,3) by simp
  then have r: "replace_second_microsecond t = t" unfolding replace_sm by simp
  show ?thesis
    unfolding ceil_to_half_hour_boundary_def Let_def r using assms by simp
qed

lemma ceil_with_residue:
  assumes "dt_minute t mod 30 = 0" "dt_second t \<noteq> 0 \<or> dt_microsecond t \<noteq> 0"
  shows "ceil_to_half_hour_boundary t = replace_second_microsecond t + timedelta_minutes 30"
proof (rule ceil_unique)
  let ?c = "replace_second_microsecond t + timedelta_minutes 30"
  have nz: "t mod 60000000 \<noteq> 0" using has_residue[of t] assms(2) by simp
  have c: "?c = t - t mod 60000000 + 1800000000" unfolding replace_sm timedelta_minutes_def by simp
  have b: "0 \<le> t mod 60000000" "t mod 60000000 < 60000000" by simp_all
  show "t \<le> ?c" unfolding c using b by linarith
  show "?c < t + 1800000000" unfolding c using b nz by linarith
  have "(t div 60000000) mod 30 = 0" using assms(1) unfolding minute_mod30 .
  then have "30 dvd t div 60000000" by (simp add: dvd_eq_mod_eq_0)
  then obtain k where k: "t div 60000000 = 30 * k" by (rule dvdE)
  have "t - t mod 60000000 = (t div 60000000) * 60000000" by (simp add: minus_mod_eq_div_mult)
  then have "?c = (k + 1) * 1800000000" unfolding c k by (simp add: algebra_simps)
  then show "?c mod 1800000000 = 0" by simp
qed

lemma ceil_half_hour_multiple: "ceil_to_half_hour_boundary (k * 1800000000 + r) =
    (if r = 0 then k * 1800000000 else (k + 1) * 1800000000)" if "0 \<le> r" "r < 1800000000"
proof (rule ceil_unique)
  let ?c = "if r = 0 then k * 1800000000 else (k + 1) * 1800000000"
  show "?c mod 1800000000 = 0" by simp
  show "k * 1800000000 + r \<le> ?c" using that by (simp add: algebra_simps)
  show "?c < k * 1800000000 + r + 1800000000" using that by (simp add: algebra_simps)
qed

lemma boundary_fields:
  "x mod 1800000000 = 0 \<longleftrightarrow> dt_minute x mod 30 = 0 \<and> dt_second x = 0 \<and> dt_microsecond x = 0"
proof
  assume z: "x mod 1800000000 = 0"
  then have "1800000000 dvd x" by (simp add: dvd_eq_mod_eq_0)
  then obtain k where k: "x = 1800000000 * k" by (rule dvdE)
  have x1: "x = (30 * k) * 60000000" unfolding k by simp
  have "x mod 60000000 = 0" unfolding x1 by simp
  then have r: "dt_second x = 0 \<and> dt_microsecond x = 0" using has_residue[of x] by simp
  have "x div 60000000 = 30 * k" unfolding x1 by simp
  then have "dt_minute x mod 30 = 0" unfolding minute_mod30 by simp
  with r show "dt_minute x mod 30 = 0 \<and> dt_second x = 0 \<and> dt_microsecond x = 0" by simp
next
  assume a: "dt_minute x mod 30 = 0 \<and> dt_second x = 0 \<and> dt_microsecond x = 0"
  then have "ceil_to_half_hour_boundary x = x" by (simp add: ceil_on_boundary)
  with ceil_char[of x] show "x mod 1800000000 = 0" by simp
qed

lemma ceil_general_residue:
  assumes "dt_second t \<noteq> 0 \<or> dt_microsecond t \<noteq> 0"
  shows "ceil_to_half_hour_boundary t
           = replace_second_microsecond t + timedelta_minutes (30 - dt_minute t mod 30)"
proof (rule ceil_unique)
  define m where "m = (t div 60000000) mod 30"
  let ?c = "replace_second_microsecond t + timedelta_minutes (30 - dt_minute t mod 30)"
  have nz: "t mod 60000000 \<noteq> 0" using has_residue[of t] assms by simp
  have b: "0 \<le> t mod 60000000" "t mod 60000000 < 60000000" by simp_all
  have m: "0 \<le> m" "m < 30" unfolding m_def by simp_all
  have c: "?c = t - t mod 60000000 + (30 - m) * 60000000"
    unfolding replace_sm timedelta_minutes_def minute_mod30 m_def by simp
  have lo: "60000000 \<le> (30 - m) * 60000000" "(30 - m) * 60000000 \<le> 1800000000"
    using m by simp_all
  show "t \<le> ?c" unfolding c using b lo by linarith
  show "?c < t + 1800000000" unfolding c using b nz lo by linarith
  have q: "t div 60000000 = (t div 60000000 div 30) * 30 + m" unfolding m_def by simp
  have "t - t mod 60000000 = (t div 60000000) * 60000000" by (simp add: minus_mod_eq_div_mult)
  also have "\<dots> = ((t div 60000000 div 30) * 30 + m) * 60000000" using q by simp
  finally have "?c = (t div 60000000 div 30 + 1) * 1800000000"
    unfolding c by (simp add: algebra_simps)
  then show "?c mod 1800000000 = 0" by simp
qed

lemma ceil_general_whole:
  assumes "dt_second t = 0" "dt_microsecond t = 0" "dt_minute t mod 30 \<noteq> 0"
  shows "ceil_to_half_hour_boundary t = t + timedelta_minutes (30 - dt_minute t mod 30)"
proof -
  have z: "t mod 60000000 = 0" using has_residue[of t] assms(1,2) by simp
  then have r: "replace_second_microsecond t = t" unfolding replace_sm by simp
  show ?thesis
    unfolding ceil_to_half_hour_boundary_def Let_def r using assms by simp
qed

text \<open>
  Claim C4 (ceiling residue rule). The ceiling of an instant is on a :00/:30 boundary (zero
  seconds and microseconds), not before the instant and less than 30 minutes after it. An
  instant that is exactly on a boundary is its own ceiling, and no other instant is. Any
  seconds or microseconds, whatever the minute, move the ceiling past the instant to the
  next boundary: the minute start plus 30 minutes less the minutes past the last boundary,
  which is a full 30 minutes when the minute is itself on a boundary. A whole minute off the
  boundary goes up to the next boundary. On every day, 12:00:00.000 goes to 12:00,
  12:00:00.001 to 12:30 and 12:30:00.001 to 13:00.
\<close>

theorem ceil_residue_rule:
  "(dt_minute t mod 30 = 0 \<and> dt_second t = 0 \<and> dt_microsecond t = 0
      \<longrightarrow> ceil_to_half_hour_boundary t = t)
   \<and> (dt_minute t mod 30 = 0 \<and> (dt_second t \<noteq> 0 \<or> dt_microsecond t \<noteq> 0)
      \<longrightarrow> ceil_to_half_hour_boundary t = replace_second_microsecond t + timedelta_minutes 30)
   \<and> (dt_second t \<noteq> 0 \<or> dt_microsecond t \<noteq> 0
      \<longrightarrow> ceil_to_half_hour_boundary t
            = replace_second_microsecond t + timedelta_minutes (30 - dt_minute t mod 30)
          \<and> t < ceil_to_half_hour_boundary t)
   \<and> (dt_second t = 0 \<and> dt_microsecond t = 0 \<and> dt_minute t mod 30 \<noteq> 0
      \<longrightarrow> ceil_to_half_hour_boundary t = t + timedelta_minutes (30 - dt_minute t mod 30))
   \<and> (ceil_to_half_hour_boundary t = t
      \<longleftrightarrow> dt_minute t mod 30 = 0 \<and> dt_second t = 0 \<and> dt_microsecond t = 0)
   \<and> t \<le> ceil_to_half_hour_boundary t
   \<and> ceil_to_half_hour_boundary t < t + timedelta_minutes 30
   \<and> dt_minute (ceil_to_half_hour_boundary t) mod 30 = 0
   \<and> dt_second (ceil_to_half_hour_boundary t) = 0
   \<and> dt_microsecond (ceil_to_half_hour_boundary t) = 0
   \<and> ceil_to_half_hour_boundary (mk_datetime d 12 0 0 0) = mk_datetime d 12 0 0 0
   \<and> ceil_to_half_hour_boundary (mk_datetime d 12 0 0 1000) = mk_datetime d 12 30 0 0
   \<and> ceil_to_half_hour_boundary (mk_datetime d 12 30 0 1000) = mk_datetime d 13 0 0 0"
proof -
  have e1: "mk_datetime d 12 0 0 0 = (d * 48 + 24) * 1800000000 + 0"
    and e2: "mk_datetime d 12 0 0 1000 = (d * 48 + 24) * 1800000000 + 1000"
    and e3: "mk_datetime d 12 30 0 1000 = (d * 48 + 25) * 1800000000 + 1000"
    and e4: "mk_datetime d 12 30 0 0 = (d * 48 + 24 + 1) * 1800000000"
    and e5: "mk_datetime d 13 0 0 0 = (d * 48 + 25 + 1) * 1800000000"
    unfolding mk_datetime_def by simp_all
  have c1: "ceil_to_half_hour_boundary (mk_datetime d 12 0 0 0) = mk_datetime d 12 0 0 0"
    unfolding e1 by (subst ceil_half_hour_multiple) simp_all
  have c2: "ceil_to_half_hour_boundary (mk_datetime d 12 0 0 1000) = mk_datetime d 12 30 0 0"
    unfolding e2 e4 by (subst ceil_half_hour_multiple) simp_all
  have c3: "ceil_to_half_hour_boundary (mk_datetime d 12 30 0 1000) = mk_datetime d 13 0 0 0"
    unfolding e3 e5 by (subst ceil_half_hour_multiple) simp_all
  have p1: "dt_minute t mod 30 = 0 \<and> dt_second t = 0 \<and> dt_microsecond t = 0
      \<longrightarrow> ceil_to_half_hour_boundary t = t"
    using ceil_on_boundary[of t] by (intro impI) (elim conjE)
  have p2: "dt_minute t mod 30 = 0 \<and> (dt_second t \<noteq> 0 \<or> dt_microsecond t \<noteq> 0)
      \<longrightarrow> ceil_to_half_hour_boundary t = replace_second_microsecond t + timedelta_minutes 30"
    using ceil_with_residue[of t] by (intro impI) (elim conjE)
  have ch: "ceil_to_half_hour_boundary t mod 1800000000 = 0" "t \<le> ceil_to_half_hour_boundary t"
    "ceil_to_half_hour_boundary t < t + 1800000000"
    using ceil_char[of t] by simp_all
  have p5: "ceil_to_half_hour_boundary t = t
      \<longleftrightarrow> dt_minute t mod 30 = 0 \<and> dt_second t = 0 \<and> dt_microsecond t = 0"
  proof
    assume "ceil_to_half_hour_boundary t = t"
    with ch(1) have "t mod 1800000000 = 0" by simp
    then show "dt_minute t mod 30 = 0 \<and> dt_second t = 0 \<and> dt_microsecond t = 0"
      unfolding boundary_fields .
  next
    assume "dt_minute t mod 30 = 0 \<and> dt_second t = 0 \<and> dt_microsecond t = 0"
    with p1 show "ceil_to_half_hour_boundary t = t" by simp
  qed
  have p3: "dt_second t \<noteq> 0 \<or> dt_microsecond t \<noteq> 0
      \<longrightarrow> ceil_to_half_hour_boundary t
            = replace_second_microsecond t + timedelta_minutes (30 - dt_minute t mod 30)
          \<and> t < ceil_to_half_hour_boundary t"
  proof
    assume r: "dt_second t \<noteq> 0 \<or> dt_microsecond t \<noteq> 0"
    then have "ceil_to_half_hour_boundary t \<noteq> t" unfolding p5 by blast
    with ch(2) have "t < ceil_to_half_hour_boundary t" by simp
    with ceil_general_residue[OF r]
    show "ceil_to_half_hour_boundary t
            = replace_second_microsecond t + timedelta_minutes (30 - dt_minute t mod 30)
          \<and> t < ceil_to_half_hour_boundary t" by simp
  qed
  have p4: "dt_second t = 0 \<and> dt_microsecond t = 0 \<and> dt_minute t mod 30 \<noteq> 0
      \<longrightarrow> ceil_to_half_hour_boundary t = t + timedelta_minutes (30 - dt_minute t mod 30)"
    using ceil_general_whole[of t] by (intro impI) (elim conjE)
  have p6: "ceil_to_half_hour_boundary t < t + timedelta_minutes 30"
    using ch(3) unfolding timedelta_minutes_def by simp
  have p7: "dt_minute (ceil_to_half_hour_boundary t) mod 30 = 0"
    "dt_second (ceil_to_half_hour_boundary t) = 0"
    "dt_microsecond (ceil_to_half_hour_boundary t) = 0"
    using ch(1) unfolding boundary_fields by simp_all
  from p1 p2 p3 p4 p5 ch(2) p6 p7 c1 c2 c3 show ?thesis by (intro conjI)
qed

theorem ceil_residue_rule_witness:
  "ceil_to_half_hour_boundary (mk_datetime 21915 12 30 0 0) = mk_datetime 21915 12 30 0 0
   \<and> ceil_to_half_hour_boundary (mk_datetime 21915 12 30 0 1000) = mk_datetime 21915 13 0 0 0
   \<and> ceil_to_half_hour_boundary (mk_datetime 21915 12 0 7 0) = mk_datetime 21915 12 30 0 0
   \<and> ceil_to_half_hour_boundary (mk_datetime 21915 12 15 0 1) = mk_datetime 21915 12 30 0 0
   \<and> ceil_to_half_hour_boundary (mk_datetime 21915 12 15 0 0) = mk_datetime 21915 12 30 0 0"
proof -
  have a: "dt_minute (mk_datetime 21915 12 30 0 0) mod 30 = 0 \<and> dt_second (mk_datetime 21915 12 30 0 0) = 0
      \<and> dt_microsecond (mk_datetime 21915 12 30 0 0) = 0"
    unfolding dt_minute_def dt_second_def dt_microsecond_def mk_datetime_def by simp
  have b: "dt_minute (mk_datetime 21915 12 0 7 0) mod 30 = 0
      \<and> (dt_second (mk_datetime 21915 12 0 7 0) \<noteq> 0 \<or> dt_microsecond (mk_datetime 21915 12 0 7 0) \<noteq> 0)"
    unfolding dt_minute_def dt_second_def dt_microsecond_def mk_datetime_def by simp
  have c: "replace_second_microsecond (mk_datetime 21915 12 0 7 0) + timedelta_minutes 30
      = mk_datetime 21915 12 30 0 0"
    unfolding replace_sm timedelta_minutes_def mk_datetime_def by simp
  from ceil_residue_rule[of "mk_datetime 21915 12 30 0 0" 21915] a
  have 1: "ceil_to_half_hour_boundary (mk_datetime 21915 12 30 0 0) = mk_datetime 21915 12 30 0 0"
    and 2: "ceil_to_half_hour_boundary (mk_datetime 21915 12 30 0 1000) = mk_datetime 21915 13 0 0 0"
    by blast+
  from ceil_residue_rule[of "mk_datetime 21915 12 0 7 0" 21915] b
  have "ceil_to_half_hour_boundary (mk_datetime 21915 12 0 7 0)
      = replace_second_microsecond (mk_datetime 21915 12 0 7 0) + timedelta_minutes 30"
    by blast
  then have 3: "ceil_to_half_hour_boundary (mk_datetime 21915 12 0 7 0) = mk_datetime 21915 12 30 0 0"
    unfolding c .
  have f: "dt_second (mk_datetime 21915 12 15 0 1) \<noteq> 0 \<or> dt_microsecond (mk_datetime 21915 12 15 0 1) \<noteq> 0"
    unfolding dt_second_def dt_microsecond_def mk_datetime_def by simp
  have g: "replace_second_microsecond (mk_datetime 21915 12 15 0 1)
        + timedelta_minutes (30 - dt_minute (mk_datetime 21915 12 15 0 1) mod 30)
      = mk_datetime 21915 12 30 0 0"
    unfolding replace_sm timedelta_minutes_def dt_minute_def mk_datetime_def by simp
  from ceil_residue_rule[of "mk_datetime 21915 12 15 0 1" 21915] f
  have "ceil_to_half_hour_boundary (mk_datetime 21915 12 15 0 1)
      = replace_second_microsecond (mk_datetime 21915 12 15 0 1)
        + timedelta_minutes (30 - dt_minute (mk_datetime 21915 12 15 0 1) mod 30)"
    by blast
  then have 4: "ceil_to_half_hour_boundary (mk_datetime 21915 12 15 0 1) = mk_datetime 21915 12 30 0 0"
    unfolding g .
  have h: "dt_second (mk_datetime 21915 12 15 0 0) = 0 \<and> dt_microsecond (mk_datetime 21915 12 15 0 0) = 0
      \<and> dt_minute (mk_datetime 21915 12 15 0 0) mod 30 \<noteq> 0"
    unfolding dt_minute_def dt_second_def dt_microsecond_def mk_datetime_def by simp
  have i: "mk_datetime 21915 12 15 0 0
        + timedelta_minutes (30 - dt_minute (mk_datetime 21915 12 15 0 0) mod 30)
      = mk_datetime 21915 12 30 0 0"
    unfolding timedelta_minutes_def dt_minute_def mk_datetime_def by simp
  from ceil_residue_rule[of "mk_datetime 21915 12 15 0 0" 21915] h
  have "ceil_to_half_hour_boundary (mk_datetime 21915 12 15 0 0)
      = mk_datetime 21915 12 15 0 0
        + timedelta_minutes (30 - dt_minute (mk_datetime 21915 12 15 0 0) mod 30)"
    by blast
  then have 5: "ceil_to_half_hour_boundary (mk_datetime 21915 12 15 0 0) = mk_datetime 21915 12 30 0 0"
    unfolding i .
  from 1 2 3 4 5 show ?thesis by (intro conjI)
qed

text \<open>
  Claim C9 (idempotent ceiling). Applying \<^verbatim>\<open>ceil_to_half_hour_boundary\<close> twice gives the
  same instant as applying it once.
\<close>

theorem ceil_idempotent:
  "ceil_to_half_hour_boundary (ceil_to_half_hour_boundary x) = ceil_to_half_hour_boundary x"
proof (rule ceil_unique)
  show "ceil_to_half_hour_boundary x mod 1800000000 = 0" using ceil_char[of x] by blast
  show "ceil_to_half_hour_boundary x \<le> ceil_to_half_hour_boundary x" by simp
  show "ceil_to_half_hour_boundary x < ceil_to_half_hour_boundary x + 1800000000" by simp
qed

theorem ceil_idempotent_witness:
  "ceil_to_half_hour_boundary (ceil_to_half_hour_boundary (mk_datetime 21915 12 0 7 0))
     = mk_datetime 21915 12 30 0 0"
proof -
  have e: "mk_datetime 21915 12 0 7 0 = 1051944 * 1800000000 + 7000000"
    unfolding mk_datetime_def by simp
  have c: "ceil_to_half_hour_boundary (mk_datetime 21915 12 0 7 0) = mk_datetime 21915 12 30 0 0"
    unfolding e by (subst ceil_half_hour_multiple) (simp_all add: mk_datetime_def)
  from ceil_idempotent[of "mk_datetime 21915 12 0 7 0"] show ?thesis unfolding c .
qed

section \<open>Correctness of the sweep\<close>

lemma sum_deltas_eq:
  "i \<le> length events \<Longrightarrow>
   sum_deltas events t d i =
     (d + sum_list (map snd (takeWhile (\<lambda>e. fst e = t) (drop i events))),
      i + length (takeWhile (\<lambda>e. fst e = t) (drop i events)))"
proof (induction events t d i rule: sum_deltas.induct)
  case (1 events t delta_sum i)
  show ?case
  proof (cases "i < length events \<and> fst (events ! i) = t")
    case True
    then have d: "drop i events = events ! i # drop (Suc i) events"
      by (simp add: Cons_nth_drop_Suc)
    from True have "Suc i \<le> length events" by simp
    from 1(1)[OF True this] True show ?thesis
      by (subst sum_deltas.simps) (simp add: d)
  next
    case False
    show ?thesis
    proof (cases "i < length events")
      case True
      then have d: "drop i events = events ! i # drop (Suc i) events"
        by (simp add: Cons_nth_drop_Suc)
      from False True show ?thesis by (subst sum_deltas.simps) (simp add: d)
    next
      case False
      with 1(2) show ?thesis by (subst sum_deltas.simps) simp
    qed
  qed
qed

lemma dropWhile_sorted_gt:
  "sorted (map fst es) \<Longrightarrow> \<forall>e\<in>set es. t \<le> fst e \<Longrightarrow>
   \<forall>e\<in>set (dropWhile (\<lambda>e. fst e = t) es). (t::int) < fst e"
proof (induction es)
  case Nil
  then show ?case by simp
next
  case (Cons a es)
  show ?case
  proof (cases "fst a = t")
    case True
    with Cons show ?thesis by simp
  next
    case False
    with Cons.prems have "t < fst a" by force
    moreover have "\<forall>e\<in>set es. fst a \<le> fst e" using Cons.prems(1) by simp
    ultimately show ?thesis using False by force
  qed
qed

lemma event_count_append: "event_count (xs @ ys) x = event_count xs x + event_count ys x"
  unfolding event_count_def by simp

lemma event_count_all_le: "\<forall>e\<in>set es. fst e \<le> x \<Longrightarrow> event_count es x = sum_list (map snd es)"
  unfolding event_count_def by (simp add: filter_id_conv[THEN iffD2])

lemma event_count_none: "\<forall>e\<in>set es. x < fst e \<Longrightarrow> event_count es x = 0"
proof -
  assume "\<forall>e\<in>set es. x < fst e"
  then have "filter (\<lambda>e. fst e \<le> x) es = []" by (auto simp: filter_empty_conv)
  then show ?thesis unfolding event_count_def by simp
qed

lemma ascending_from_weaken: "p \<le> q \<Longrightarrow> ascending_from q ws \<Longrightarrow> ascending_from p ws"
  by (cases ws) auto

lemma covered_Nil: "covered [] = {}"
  unfolding covered_def by simp

lemma covered_Cons: "covered (w # ws) = {fst w ..< snd w} \<union> covered ws"
  unfolding covered_def by simp

lemma covered_append: "covered (xs @ ys) = covered xs \<union> covered ys"
  unfolding covered_def by auto

lemma sweep_correct:
  "sorted (map fst (drop i events)) \<Longrightarrow> \<forall>e\<in>set (drop i events). prev \<le> fst e \<Longrightarrow>
   \<exists>ws. sweep events fw a prev i = fw @ ws \<and> ascending_from prev ws \<and>
        covered ws = {x. prev \<le> x \<and> x < last_time prev (drop i events)
                         \<and> a + event_count (drop i events) x = 0}"
proof (induction events fw a prev i rule: sweep.induct)
  case (1 events fw a prev i)
  show ?case
  proof (cases "i < length events")
    case False
    then have "sweep events fw a prev i = fw" by (subst sweep.simps) simp
    moreover from False have "drop i events = []" by simp
    ultimately show ?thesis by (simp add: covered_Nil last_time_def)
  next
    case True
    define es where "es = drop i events"
    define t where "t = fst (events ! i)"
    define same where "same = takeWhile (\<lambda>e. fst e = t) es"
    define rest where "rest = dropWhile (\<lambda>e. fst e = t) es"
    define D where "D = sum_list (map snd same)"
    define fw' where "fw' = (if a = 0 \<and> t > prev then fw @ [(prev, t)] else fw)"
    define w0 where "w0 = (if a = 0 \<and> t > prev then [(prev, t)] else [])"
    have es: "es = events ! i # drop (Suc i) events"
      unfolding es_def using True by (simp add: Cons_nth_drop_Suc)
    have es_split: "es = same @ rest" unfolding same_def rest_def by simp
    have same_ne: "same \<noteq> []" unfolding same_def es t_def by simp
    have r: "sum_deltas events t 0 i = (D, i + length same)"
      using sum_deltas_eq[of i events t 0] True unfolding D_def same_def es_def by simp
    have rest_drop: "drop (i + length same) events = rest"
    proof -
      have "drop (i + length same) events = drop (length same) es"
        unfolding es_def by (simp add: add.commute)
      also have "\<dots> = rest" unfolding es_split by simp
      finally show ?thesis .
    qed
    have sorted_es: "sorted (map fst es)" and lb: "\<forall>e\<in>set es. prev \<le> fst e"
      using 1(2,3) unfolding es_def by simp_all
    have t_le: "\<forall>e\<in>set es. t \<le> fst e"
      using sorted_es unfolding es t_def by auto
    have prev_t: "prev \<le> t" using lb unfolding es t_def by simp
    have rest_gt: "\<forall>e\<in>set rest. t < fst e"
      unfolding rest_def using sorted_es t_le by (rule dropWhile_sorted_gt)
    have same_eq: "\<forall>e\<in>set same. fst e = t"
      unfolding same_def by (auto dest: set_takeWhileD)
    have sorted_rest: "sorted (map fst rest)"
      using sorted_es unfolding es_split by (simp add: sorted_append)
    have "sweep events fw a prev i =
        (let t = fst (events ! i);
             free_windows' = (if a = 0 \<and> t > prev then fw @ [(prev, t)] else fw);
             r = sum_deltas events t 0 i
         in sweep events free_windows' (a + fst r) t (snd r))"
      using True by (subst sweep.simps) (simp only: if_True)
    then have step: "sweep events fw a prev i = sweep events fw' (a + D) t (i + length same)"
      unfolding Let_def t_def[symmetric] fw'_def[symmetric] r fst_conv snd_conv .
    have "\<exists>ws. sweep events fw' (a + D) t (i + length same) = fw' @ ws \<and> ascending_from t ws \<and>
        covered ws = {x. t \<le> x \<and> x < last_time t rest \<and> a + D + event_count rest x = 0}"
    proof -
      have p1: "sorted (map fst (drop (snd (sum_deltas events t 0 i)) events))"
        unfolding r using sorted_rest rest_drop by simp
      have p2: "\<forall>e\<in>set (drop (snd (sum_deltas events t 0 i)) events). t \<le> fst e"
        unfolding r using rest_gt rest_drop by auto
      from 1(1)[OF True t_def fw'_def refl p1 p2] show ?thesis
        unfolding r using rest_drop by simp
    qed
    then obtain ws where ws: "sweep events fw' (a + D) t (i + length same) = fw' @ ws"
      "ascending_from t ws"
      "covered ws = {x. t \<le> x \<and> x < last_time t rest \<and> a + D + event_count rest x = 0}"
      by blast
    have lt: "last_time t rest = last_time prev es"
    proof (cases "rest = []")
      case True
      then have "es = same" using es_split by simp
      then have "last es \<in> set same" using same_ne last_in_set[of same] by simp
      then have "fst (last es) = t" using same_eq by blast
      then show ?thesis using True same_ne \<open>es = same\<close> unfolding last_time_def by simp
    next
      case False
      then show ?thesis unfolding last_time_def es_split by simp
    qed
    have t_lt: "t \<le> last_time prev es"
    proof -
      have "es \<noteq> []" using es by simp
      then have "last es \<in> set es" by (rule last_in_set)
      then show ?thesis unfolding last_time_def using t_le es by auto
    qed
    have cnt_lo: "event_count es x = 0" if "x < t" for x
      using t_le that by (intro event_count_none) force
    have cnt_hi: "event_count es x = D + event_count rest x" if "t \<le> x" for x
    proof -
      have "event_count same x = D" unfolding D_def using same_eq that
        by (intro event_count_all_le) simp
      then show ?thesis unfolding es_split event_count_append by simp
    qed
    have fw': "fw' = fw @ w0" unfolding fw'_def w0_def by simp
    have asc: "ascending_from prev (w0 @ ws)"
    proof (cases "a = 0 \<and> t > prev")
      case True
      then show ?thesis unfolding w0_def using ws(2) by simp
    next
      case False
      then have "w0 = []" unfolding w0_def by simp
      then show ?thesis using ascending_from_weaken[OF prev_t ws(2)] by simp
    qed
    have cov0: "covered w0 = {x. a = 0 \<and> prev \<le> x \<and> x < t}"
      unfolding w0_def by (auto simp: covered_Cons covered_Nil)
    have cov: "covered (w0 @ ws) = {x. prev \<le> x \<and> x < last_time prev es \<and> a + event_count es x = 0}"
    proof (rule set_eqI)
      fix x
      show "x \<in> covered (w0 @ ws) \<longleftrightarrow>
            x \<in> {x. prev \<le> x \<and> x < last_time prev es \<and> a + event_count es x = 0}"
      proof (cases "x < t")
        case True
        then show ?thesis
          unfolding covered_append cov0 ws(3) using cnt_lo[OF True] t_lt by auto
      next
        case False
        then have "t \<le> x" by simp
        from cnt_hi[OF this] this prev_t show ?thesis
          unfolding covered_append cov0 ws(3) lt by auto
      qed
    qed
    have "sweep events fw a prev i = fw @ (w0 @ ws)"
      using step ws(1) fw' by simp
    with asc cov have "sweep events fw a prev i = fw @ (w0 @ ws) \<and> ascending_from prev (w0 @ ws) \<and>
        covered (w0 @ ws) = {x. prev \<le> x \<and> x < last_time prev (drop i events)
                         \<and> a + event_count (drop i events) x = 0}"
      unfolding es_def by simp
    then show ?thesis by (rule exI)
  qed
qed

section \<open>The events of the merger\<close>

lemma block_events_Inr:
  "block_events f ss se b = Inr new \<Longrightarrow>
   new = (case block_interval f b of None \<Rightarrow> [] | Some iv \<Rightarrow> interval_events ss se iv)"
  unfolding block_events_def block_interval_def interval_events_def
  by (auto split: if_splits sum.splits option.splits)

lemma block_events_readable:
  "block_readable f b \<Longrightarrow> \<exists>new. block_events f ss se b = Inr new"
  unfolding block_events_def block_readable_def
  by (auto split: if_splits sum.splits option.splits)

lemma collect_blocks_Inr:
  "collect_blocks f ss se evs bs = Inr evs' \<Longrightarrow>
   evs' = evs @ concat (map (interval_events ss se) (List.map_filter (block_interval f) bs))"
proof (induction bs arbitrary: evs)
  case Nil
  then show ?case by (simp add: List.map_filter_simps)
next
  case (Cons b bs)
  from Cons.prems obtain new where new: "block_events f ss se b = Inr new"
    and rest: "collect_blocks f ss se (evs @ new) bs = Inr evs'"
    by (auto split: sum.splits)
  from Cons.IH[OF rest] block_events_Inr[OF new] show ?case
    by (auto simp: List.map_filter_simps split: option.splits)
qed

lemma collect_blocks_readable:
  "list_all (block_readable f) bs \<Longrightarrow> \<exists>evs'. collect_blocks f ss se evs bs = Inr evs'"
proof (induction bs arbitrary: evs)
  case Nil
  then show ?case by simp
next
  case (Cons b bs)
  then obtain new where "block_events f ss se b = Inr new"
    using block_events_readable[of f b ss se] by auto
  with Cons show ?case by simp
qed

lemma map_filter_append:
  "List.map_filter g (xs @ ys) = List.map_filter g xs @ List.map_filter g ys"
  unfolding List.map_filter_def by simp

lemma collect_persons_Inr:
  "collect_persons f ss se evs ps = Inr evs' \<Longrightarrow>
   evs' = evs @ concat (map (interval_events ss se) (busy_intervals f ps))"
proof (induction ps arbitrary: evs)
  case Nil
  then show ?case by (simp add: busy_intervals_def)
next
  case (Cons p ps)
  from Cons.prems obtain mid where mid: "collect_blocks f ss se evs (person_busy p) = Inr mid"
    and rest: "collect_persons f ss se mid ps = Inr evs'"
    by (auto split: sum.splits)
  from Cons.IH[OF rest] collect_blocks_Inr[OF mid] show ?case
    by (simp add: busy_intervals_def person_intervals_def)
qed

lemma collect_persons_readable:
  "schedules_readable f ps \<Longrightarrow> \<exists>evs'. collect_persons f ss se evs ps = Inr evs'"
proof (induction ps arbitrary: evs)
  case Nil
  then show ?case by simp
next
  case (Cons p ps)
  then obtain mid where "collect_blocks f ss se evs (person_busy p) = Inr mid"
    using collect_blocks_readable[of f "person_busy p" ss se evs]
    by (auto simp: schedules_readable_def)
  with Cons show ?case by (simp add: schedules_readable_def)
qed

lemma event_count_Nil: "event_count [] x = 0"
  unfolding event_count_def by simp

lemma event_count_Cons:
  "event_count (e # es) x = (if fst e \<le> x then snd e else 0) + event_count es x"
  unfolding event_count_def by simp

lemma event_count_interval:
  "event_count (interval_events ss se iv) x =
     (if fst (clip ss se iv) \<le> x \<and> x < snd (clip ss se iv) then 1 else 0)"
  unfolding interval_events_def intersect_half_open_interval_def clip_def Let_def
  by (auto simp: event_count_Cons event_count_Nil)

lemma event_count_intervals_nonneg:
  "0 \<le> event_count (concat (map (interval_events ss se) ivs)) x"
  by (induction ivs) (auto simp: event_count_Nil event_count_append event_count_interval)

lemma event_count_intervals_zero:
  "event_count (concat (map (interval_events ss se) ivs)) x = 0
     \<longleftrightarrow> x \<notin> covered (map (clip ss se) ivs)"
proof (induction ivs)
  case Nil
  then show ?case by (simp add: event_count_Nil covered_Nil)
next
  case (Cons iv ivs)
  have nn: "0 \<le> event_count (concat (map (interval_events ss se) ivs)) x"
    by (rule event_count_intervals_nonneg)
  show ?case
    using Cons nn by (auto simp: event_count_append event_count_interval covered_Cons)
qed

lemma interval_events_bounds:
  "e \<in> set (interval_events ss se iv) \<Longrightarrow> ss \<le> fst e \<and> fst e \<le> se"
  unfolding interval_events_def intersect_half_open_interval_def Let_def
  by (auto split: if_splits)

lemma event_count_insort:
  "event_count (insort_key k e es) x = event_count (e # es) x"
  by (induction es) (auto simp: event_count_Cons)

lemma event_count_sort: "event_count (sort_key k es) x = event_count es x"
  by (induction es) (auto simp: event_count_Cons event_count_insort event_count_Nil)

lemma sorted_events_fst:
  "sorted (map fst (sort_key (\<lambda>item. (fst item, snd item)) (es :: event list)))"
proof -
  have "sorted (map (\<lambda>item. (fst item, snd item)) (sort_key (\<lambda>item. (fst item, snd item)) es))"
    by (rule sorted_sort_key)
  then have "sorted_wrt (\<lambda>a b. (fst a, snd a) \<le> (fst b, snd b))
      (sort_key (\<lambda>item. (fst item, snd item)) es)"
    by (simp add: sorted_map)
  then have "sorted_wrt (\<lambda>a b. fst a \<le> fst b) (sort_key (\<lambda>item. (fst item, snd item)) es)"
    by (rule sorted_wrt_mono_rel[rotated]) (auto simp: less_eq_prod_def)
  then show ?thesis by (simp add: sorted_map)
qed

lemma sorted_last_max:
  "sorted (map fst es) \<Longrightarrow> e \<in> set es \<Longrightarrow> fst e \<le> fst (last (es :: event list))"
proof (induction es)
  case Nil
  then show ?case by simp
next
  case (Cons a es)
  show ?case
  proof (cases "es = []")
    case True
    with Cons.prems show ?thesis by simp
  next
    case False
    then have l: "last es \<in> set es" by simp
    from Cons.prems(1) have s: "sorted (map fst es)" and a: "\<forall>y\<in>set es. fst a \<le> fst y" by auto
    show ?thesis
    proof (cases "e = a")
      case True
      with a l False show ?thesis by simp
    next
      case False
      with Cons.prems(2) have "e \<in> set es" by simp
      from Cons.IH[OF s this] \<open>es \<noteq> []\<close> show ?thesis by simp
    qed
  qed
qed

lemma ascending_from_sorted:
  "ascending_from p ws \<Longrightarrow>
   sorted_wrt (\<lambda>w w'. fst w < fst w' \<and> snd w \<le> fst w') ws \<and> (\<forall>w\<in>set ws. p \<le> fst w \<and> fst w < snd w)"
proof (induction ws arbitrary: p)
  case Nil
  then show ?case by simp
next
  case (Cons w ws)
  from Cons.prems have w: "p \<le> fst w" "fst w < snd w" and r: "ascending_from (snd w) ws" by auto
  from Cons.IH[OF r] have s: "sorted_wrt (\<lambda>w w'. fst w < fst w' \<and> snd w \<le> fst w') ws"
    and b: "\<forall>w'\<in>set ws. snd w \<le> fst w' \<and> fst w' < snd w'" by auto
  from w s b show ?case by auto
qed

section \<open>Merger correctness\<close>

lemma parse_examples:
  "parse_iso8601 example_fromisoformat (PyStr ''2030-01-01T10:00:00Z'')
     = Inr \<lparr>wall = mk_datetime 21915 10 0 0 0, utcoffset = 0\<rparr>"
  "parse_iso8601 example_fromisoformat (PyStr ''2030-01-01T11:00:00Z'')
     = Inr \<lparr>wall = mk_datetime 21915 11 0 0 0, utcoffset = 0\<rparr>"
  "parse_iso8601 example_fromisoformat (PyStr ''2030-01-01T12:00:00Z'')
     = Inr \<lparr>wall = mk_datetime 21915 12 0 0 0, utcoffset = 0\<rparr>"
  "parse_iso8601 example_fromisoformat (PyStr ''2030-01-01T13:00:00Z'')
     = Inr \<lparr>wall = mk_datetime 21915 13 0 0 0, utcoffset = 0\<rparr>"
  unfolding parse_iso8601_def example_fromisoformat_def by simp_all

lemma touching_events:
  "collect_persons example_fromisoformat (mk_datetime 21915 9 0 0 0) (mk_datetime 21915 17 0 0 0) []
      touching_schedules
   = Inr [(mk_datetime 21915 10 0 0 0, 1), (mk_datetime 21915 11 0 0 0, - 1),
          (mk_datetime 21915 11 0 0 0, 1), (mk_datetime 21915 12 0 0 0, - 1)]"
  unfolding touching_schedules_def
  by (simp add: person_busy_def block_events_def raw_start_def raw_end_def py_or_def dict_get_def
      parse_examples instant_of_def intersect_half_open_interval_def Let_def mk_datetime_def)


lemma touching_windows:
  "compute_common_free_windows example_fromisoformat touching_schedules
      (mk_datetime 21915 9 0 0 0) (mk_datetime 21915 17 0 0 0)
   = Inr [(mk_datetime 21915 9 0 0 0, mk_datetime 21915 10 0 0 0),
          (mk_datetime 21915 12 0 0 0, mk_datetime 21915 17 0 0 0)]"
  unfolding compute_common_free_windows_def touching_events Let_def
  by (simp add: mk_datetime_def less_eq_prod_def sweep.simps sum_deltas.simps Let_def)

lemma compute_events:
  assumes "compute_common_free_windows f ps ss se = Inr ws"
  shows "ws = sweep (sort_key (\<lambda>item. (fst item, snd item))
                 (concat (map (interval_events ss se) (busy_intervals f ps)) @ [(ss, 0), (se, 0)]))
               [] 0 ss 0"
proof -
  from assms obtain events0 where c: "collect_persons f ss se [] ps = Inr events0"
    and w: "ws = sweep (sort_key (\<lambda>item. (fst item, snd item)) (events0 @ [(ss, 0), (se, 0)])) [] 0 ss 0"
    unfolding compute_common_free_windows_def Let_def by (auto split: sum.splits)
  from collect_persons_Inr[OF c] w show ?thesis by simp
qed

lemma compute_total:
  "schedules_readable f ps \<Longrightarrow> \<exists>ws. compute_common_free_windows f ps ss se = Inr ws"
  using collect_persons_readable[of f ps ss se "[]"]
  unfolding compute_common_free_windows_def Let_def by auto

lemma merger_sweep:
  fixes ivs :: "(instant \<times> instant) list"
  assumes "ss < se"
  defines "events \<equiv> sort_key (\<lambda>item. (fst item, snd item))
                 (concat (map (interval_events ss se) ivs) @ [(ss, 0), (se, 0)])"
  shows "ascending_from ss (sweep events [] 0 ss 0)
       \<and> covered (sweep events [] 0 ss 0) = {ss ..< se} - covered (map (clip ss se) ivs)"
proof -
  define events1 where "events1 = concat (map (interval_events ss se) ivs) @ [(ss, 0), (se, 0)]"
  have ev: "events = sort_key (\<lambda>item. (fst item, snd item)) events1"
    unfolding events_def events1_def ..
  have set_ev: "set events = set events1" unfolding ev by simp
  have bounds: "\<forall>e\<in>set events. ss \<le> fst e \<and> fst e \<le> se"
    unfolding set_ev events1_def using assms(1) by (auto dest: interval_events_bounds)
  have srt: "sorted (map fst events)" unfolding ev by (rule sorted_events_fst)
  have ne: "events \<noteq> []" using set_ev unfolding events1_def by auto
  have "(se, 0) \<in> set events" unfolding set_ev events1_def by simp
  from sorted_last_max[OF srt this] have "se \<le> fst (last events)" by simp
  moreover have "fst (last events) \<le> se" using bounds ne last_in_set[of events] by blast
  ultimately have lt: "last_time ss events = se" unfolding last_time_def using ne by simp
  have cnt: "event_count events x = event_count (concat (map (interval_events ss se) ivs)) x" for x
    unfolding ev event_count_sort events1_def event_count_append
    by (simp add: event_count_Cons event_count_Nil)
  from sweep_correct[of 0 events ss "[]" 0] srt bounds
  obtain ws where ws: "sweep events [] 0 ss 0 = ws" "ascending_from ss ws"
    "covered ws = {x. ss \<le> x \<and> x < last_time ss events \<and> 0 + event_count events x = 0}"
    by auto
  have "covered ws = {ss ..< se} - covered (map (clip ss se) ivs)"
    unfolding ws(3) lt cnt using event_count_intervals_zero[of ss se ivs] by auto
  with ws show ?thesis by simp
qed

lemma sweep_no_busy:
  assumes "ss < se"
  shows "sweep [(ss, 0), (se, 0)] [] 0 ss 0 = [(ss, se)]"
proof -
  have s0: "sum_deltas [(ss, 0), (se, 0)] ss 0 0 = (0, 1)"
    using assms by (simp add: sum_deltas.simps[of _ _ _ 0] sum_deltas.simps[of _ _ _ "Suc 0"])
  have s1: "sum_deltas [(ss, 0), (se, 0)] se 0 (Suc 0) = (0, 2)"
    by (simp add: sum_deltas.simps[of _ _ _ "Suc 0"] sum_deltas.simps[of _ _ _ "Suc (Suc 0)"])
  have "sweep [(ss, 0), (se, 0)] [] 0 ss 0 = sweep [(ss, 0), (se, 0)] [] 0 ss (Suc 0)"
    by (subst sweep.simps) (simp add: s0)
  also have "\<dots> = sweep [(ss, 0), (se, 0)] [(ss, se)] 0 se 2"
    using assms by (subst sweep.simps) (simp add: s1)
  also have "\<dots> = [(ss, se)]"
    by (subst sweep.simps) simp
  finally show ?thesis .
qed

lemma compute_no_busy:
  assumes "ss < se" "\<forall>p\<in>set ps. person_busy p = []"
  shows "compute_common_free_windows f ps ss se = Inr [(ss, se)]"
proof -
  have c: "collect_persons f ss se evs ps = Inr evs" for evs
    using assms(2) by (induction ps) auto
  have "sort_key (\<lambda>item. (fst item, snd item)) [(ss, 0::int), (se, 0)] = [(ss, 0), (se, 0)]"
    using assms(1) by (simp add: less_eq_prod_def)
  then show ?thesis
    unfolding compute_common_free_windows_def Let_def c using sweep_no_busy[OF assms(1)] by simp
qed

text \<open>
  Claim C2 (merger correctness). For a search window with start before end:
  \<^verbatim>\<open>compute_common_free_windows\<close> returns a list whenever every busy block can be read
  (its timestamps parse); a returned list is in strictly ascending order with each window
  ending no later than the next one starts, every window is non-empty, and the windows cover
  exactly the search window minus the valid busy intervals clipped to it; with no busy
  block at all (in particular with no subject) the result is the single window equal to
  the search window.
\<close>

theorem merger_correct:
  assumes "search_start < search_end"
  shows "(schedules_readable fromiso busy_schedules \<longrightarrow>
            (\<exists>ws. compute_common_free_windows fromiso busy_schedules search_start search_end = Inr ws))
       \<and> (\<forall>ws. compute_common_free_windows fromiso busy_schedules search_start search_end = Inr ws \<longrightarrow>
            sorted_wrt (\<lambda>w w'. fst w < fst w' \<and> snd w \<le> fst w') ws
            \<and> (\<forall>w\<in>set ws. fst w < snd w)
            \<and> covered ws = {search_start ..< search_end}
                 - covered (map (clip search_start search_end) (busy_intervals fromiso busy_schedules)))
       \<and> ((\<forall>p\<in>set busy_schedules. person_busy p = []) \<longrightarrow>
            compute_common_free_windows fromiso busy_schedules search_start search_end
              = Inr [(search_start, search_end)])"
proof (intro conjI impI allI)
  assume "schedules_readable fromiso busy_schedules"
  then show "\<exists>ws. compute_common_free_windows fromiso busy_schedules search_start search_end = Inr ws"
    by (rule compute_total)
next
  fix ws
  assume c: "compute_common_free_windows fromiso busy_schedules search_start search_end = Inr ws"
  note m = merger_sweep[OF assms, of "busy_intervals fromiso busy_schedules",
      folded compute_events[OF c]]
  from m have a: "ascending_from search_start ws" by simp
  from ascending_from_sorted[OF a]
  show "sorted_wrt (\<lambda>w w'. fst w < fst w' \<and> snd w \<le> fst w') ws" by simp
  from ascending_from_sorted[OF a] show "\<forall>w\<in>set ws. fst w < snd w" by simp
  from m show "covered ws = {search_start ..< search_end}
      - covered (map (clip search_start search_end) (busy_intervals fromiso busy_schedules))"
    by simp
next
  assume "\<forall>p\<in>set busy_schedules. person_busy p = []"
  with assms show "compute_common_free_windows fromiso busy_schedules search_start search_end
      = Inr [(search_start, search_end)]"
    by (rule compute_no_busy)
qed

theorem merger_correct_witness:
  "schedules_readable example_fromisoformat touching_schedules
   \<and> compute_common_free_windows example_fromisoformat touching_schedules
        (mk_datetime 21915 9 0 0 0) (mk_datetime 21915 17 0 0 0)
      = Inr [(mk_datetime 21915 9 0 0 0, mk_datetime 21915 10 0 0 0),
             (mk_datetime 21915 12 0 0 0, mk_datetime 21915 17 0 0 0)]
   \<and> covered [(mk_datetime 21915 9 0 0 0, mk_datetime 21915 10 0 0 0),
               (mk_datetime 21915 12 0 0 0, mk_datetime 21915 17 0 0 0)]
      = {mk_datetime 21915 9 0 0 0 ..< mk_datetime 21915 17 0 0 0}
        - covered (map (clip (mk_datetime 21915 9 0 0 0) (mk_datetime 21915 17 0 0 0))
                     (busy_intervals example_fromisoformat touching_schedules))
   \<and> compute_common_free_windows example_fromisoformat [] 0 1 = Inr [(0, 1)]"
proof -
  have r: "schedules_readable example_fromisoformat touching_schedules"
    unfolding schedules_readable_def touching_schedules_def
    by (simp add: person_busy_def block_readable_def raw_start_def raw_end_def py_or_def
        dict_get_def parse_examples)
  have lt: "mk_datetime 21915 9 0 0 0 < mk_datetime 21915 17 0 0 0"
    unfolding mk_datetime_def by simp
  have z: "(0::int) < 1" by simp
  from merger_correct[OF lt, of example_fromisoformat touching_schedules] touching_windows
  have c: "covered [(mk_datetime 21915 9 0 0 0, mk_datetime 21915 10 0 0 0),
               (mk_datetime 21915 12 0 0 0, mk_datetime 21915 17 0 0 0)]
      = {mk_datetime 21915 9 0 0 0 ..< mk_datetime 21915 17 0 0 0}
        - covered (map (clip (mk_datetime 21915 9 0 0 0) (mk_datetime 21915 17 0 0 0))
                     (busy_intervals example_fromisoformat touching_schedules))"
    by blast
  from merger_correct[OF z, of example_fromisoformat "[]"]
  have e: "compute_common_free_windows example_fromisoformat [] 0 1 = Inr [(0, 1)]"
    by simp
  from r touching_windows c e show ?thesis by (intro conjI)
qed

section \<open>Touching busy intervals\<close>

lemma touching_intervals:
  "busy_intervals example_fromisoformat touching_schedules
   = [(mk_datetime 21915 10 0 0 0, mk_datetime 21915 11 0 0 0),
      (mk_datetime 21915 11 0 0 0, mk_datetime 21915 12 0 0 0)]"
  unfolding busy_intervals_def person_intervals_def touching_schedules_def
  by (simp add: person_busy_def List.map_filter_simps block_interval_def raw_start_def raw_end_def
      py_or_def dict_get_def parse_examples instant_of_def mk_datetime_def)

text \<open>
  Claim C3 as stated fails. With A busy from 10:00 to 11:00 and B busy from 11:00 to 12:00 inside
  the search window 09:00 to 17:00, the merger returns the windows 09:00 to 10:00 and 12:00 to
  17:00: the instant 11:00 lies in no returned window, and no returned window starts or ends
  at 11:00.
\<close>

theorem touching_boundary_counterexample:
  "busy_intervals example_fromisoformat touching_schedules
     = [(mk_datetime 21915 10 0 0 0, mk_datetime 21915 11 0 0 0),
        (mk_datetime 21915 11 0 0 0, mk_datetime 21915 12 0 0 0)]
   \<and> (\<exists>ws. compute_common_free_windows example_fromisoformat touching_schedules
              (mk_datetime 21915 9 0 0 0) (mk_datetime 21915 17 0 0 0) = Inr ws
         \<and> mk_datetime 21915 11 0 0 0 \<notin> covered ws
         \<and> \<not> (\<exists>w\<in>set ws. fst w = mk_datetime 21915 11 0 0 0 \<or> snd w = mk_datetime 21915 11 0 0 0))"
proof -
  have "mk_datetime 21915 11 0 0 0 \<notin> covered [(mk_datetime 21915 9 0 0 0, mk_datetime 21915 10 0 0 0),
          (mk_datetime 21915 12 0 0 0, mk_datetime 21915 17 0 0 0)]"
    by (simp add: covered_Cons covered_Nil mk_datetime_def)
  moreover have "\<not> (\<exists>w\<in>set [(mk_datetime 21915 9 0 0 0, mk_datetime 21915 10 0 0 0),
          (mk_datetime 21915 12 0 0 0, mk_datetime 21915 17 0 0 0)].
        fst w = mk_datetime 21915 11 0 0 0 \<or> snd w = mk_datetime 21915 11 0 0 0)"
    by (simp add: mk_datetime_def)
  ultimately show ?thesis using touching_intervals touching_windows by blast
qed

lemma covered_mem: "x \<in> covered ws \<longleftrightarrow> (\<exists>w\<in>set ws. fst w \<le> x \<and> x < snd w)"
  unfolding covered_def by auto

text \<open>
  Claim C3, amended (tie-break at touching intervals). If one valid busy interval ends at the
  instant \<open>b\<close> where another begins, both inside the search window, then \<open>b\<close> is not free
  (the half-open interval that begins at \<open>b\<close> contains it), the merger leaves no gap between
  the two intervals (no returned window meets the span from \<open>a\<close> to \<open>c\<close>), and no returned
  window starts or ends at \<open>b\<close>.
\<close>

theorem touching_no_boundary:
  assumes "search_start < search_end"
    and "compute_common_free_windows fromiso busy_schedules search_start search_end = Inr ws"
    and "(a, b) \<in> set (busy_intervals fromiso busy_schedules)"
    and "(b, c) \<in> set (busy_intervals fromiso busy_schedules)"
    and "search_start \<le> a" "a < b" "b < c" "c \<le> search_end"
  shows "b \<notin> covered ws \<and> covered ws \<inter> {a ..< c} = {}
       \<and> (\<forall>w\<in>set ws. fst w \<noteq> b \<and> snd w \<noteq> b)"
proof -
  let ?busy = "covered (map (clip search_start search_end) (busy_intervals fromiso busy_schedules))"
  from merger_sweep[OF assms(1), of "busy_intervals fromiso busy_schedules",
      folded compute_events[OF assms(2)]]
  have asc: "ascending_from search_start ws"
    and cov: "covered ws = {search_start ..< search_end} - ?busy" by simp_all
  from ascending_from_sorted[OF asc] have ne: "\<forall>w\<in>set ws. fst w < snd w" by simp
  have ab: "x \<in> ?busy" if "a \<le> x" "x < b" for x
  proof -
    have "clip search_start search_end (a, b) \<in> set (map (clip search_start search_end)
        (busy_intervals fromiso busy_schedules))" using assms(3) by (simp add: rev_image_eqI)
    moreover have "fst (clip search_start search_end (a, b)) \<le> x"
      "x < snd (clip search_start search_end (a, b))"
      using that assms(5-8) unfolding clip_def by simp_all
    ultimately show ?thesis unfolding covered_mem by blast
  qed
  have bc: "x \<in> ?busy" if "b \<le> x" "x < c" for x
  proof -
    have "clip search_start search_end (b, c) \<in> set (map (clip search_start search_end)
        (busy_intervals fromiso busy_schedules))" using assms(4) by (simp add: rev_image_eqI)
    moreover have "fst (clip search_start search_end (b, c)) \<le> x"
      "x < snd (clip search_start search_end (b, c))"
      using that assms(5-8) unfolding clip_def by simp_all
    ultimately show ?thesis unfolding covered_mem by blast
  qed
  have free: "x \<notin> ?busy" if "w \<in> set ws" "fst w \<le> x" "x < snd w" for w x
  proof -
    from that have "x \<in> covered ws" unfolding covered_mem by blast
    then show ?thesis unfolding cov by simp
  qed
  have 1: "b \<notin> covered ws" unfolding cov using bc[of b] assms(7) by simp
  have 2: "fst w \<noteq> b \<and> snd w \<noteq> b" if w: "w \<in> set ws" for w
  proof
    show "fst w \<noteq> b"
    proof
      assume e: "fst w = b"
      have "fst w < snd w" using ne w by blast
      then have "b \<notin> ?busy" using free[OF w, of b] e by simp
      with bc[of b] assms(7) show False by simp
    qed
    show "snd w \<noteq> b"
    proof
      assume e: "snd w = b"
      define x where "x = max (fst w) a"
      have "fst w < b" using ne w e by auto
      then have "fst w \<le> x" "x < snd w" "a \<le> x" "x < b"
        unfolding x_def using assms(6) e by simp_all
      with free[OF w, of x] ab[of x] show False by simp
    qed
  qed
  have 3: "covered ws \<inter> {a ..< c} = {}"
  proof (rule ccontr)
    assume "covered ws \<inter> {a ..< c} \<noteq> {}"
    then obtain x where x: "x \<in> covered ws" "a \<le> x" "x < c" by auto
    from x(2,3) have "x \<in> ?busy" using ab[of x] bc[of x] by (cases "x < b") simp_all
    with x(1) show False unfolding cov by simp
  qed
  from 1 2 3 show ?thesis by blast
qed

theorem touching_no_boundary_witness:
  "mk_datetime 21915 11 0 0 0 \<notin> covered [(mk_datetime 21915 9 0 0 0, mk_datetime 21915 10 0 0 0),
          (mk_datetime 21915 12 0 0 0, mk_datetime 21915 17 0 0 0)]
   \<and> fst (mk_datetime 21915 12 0 0 0, mk_datetime 21915 17 0 0 0) \<noteq> mk_datetime 21915 11 0 0 0
   \<and> snd (mk_datetime 21915 9 0 0 0, mk_datetime 21915 10 0 0 0) \<noteq> mk_datetime 21915 11 0 0 0"
proof -
  have h: "mk_datetime 21915 9 0 0 0 < mk_datetime 21915 17 0 0 0"
    "mk_datetime 21915 9 0 0 0 \<le> mk_datetime 21915 10 0 0 0"
    "mk_datetime 21915 10 0 0 0 < mk_datetime 21915 11 0 0 0"
    "mk_datetime 21915 11 0 0 0 < mk_datetime 21915 12 0 0 0"
    "mk_datetime 21915 12 0 0 0 \<le> mk_datetime 21915 17 0 0 0"
    unfolding mk_datetime_def by simp_all
  have m: "(mk_datetime 21915 10 0 0 0, mk_datetime 21915 11 0 0 0)
        \<in> set (busy_intervals example_fromisoformat touching_schedules)"
      "(mk_datetime 21915 11 0 0 0, mk_datetime 21915 12 0 0 0)
        \<in> set (busy_intervals example_fromisoformat touching_schedules)"
    unfolding touching_intervals by simp_all
  note t = touching_no_boundary[OF h(1) touching_windows m h(2-5)]
  from t have 1: "mk_datetime 21915 11 0 0 0
      \<notin> covered [(mk_datetime 21915 9 0 0 0, mk_datetime 21915 10 0 0 0),
          (mk_datetime 21915 12 0 0 0, mk_datetime 21915 17 0 0 0)]"
    by blast
  from t have "\<forall>w\<in>set [(mk_datetime 21915 9 0 0 0, mk_datetime 21915 10 0 0 0),
          (mk_datetime 21915 12 0 0 0, mk_datetime 21915 17 0 0 0)].
        fst w \<noteq> mk_datetime 21915 11 0 0 0 \<and> snd w \<noteq> mk_datetime 21915 11 0 0 0"
    by blast
  then have 2: "fst (mk_datetime 21915 12 0 0 0, mk_datetime 21915 17 0 0 0) \<noteq> mk_datetime 21915 11 0 0 0"
    and 3: "snd (mk_datetime 21915 9 0 0 0, mk_datetime 21915 10 0 0 0) \<noteq> mk_datetime 21915 11 0 0 0"
    by simp_all
  from 1 2 3 show ?thesis by (intro conjI)
qed

section \<open>Malformed busy blocks\<close>


lemma person_busy_map_busy: "g [] = [] \<Longrightarrow> person_busy (map_busy g p) = g (person_busy p)"
  unfolding person_busy_def map_busy_def by (cases "busy p") simp_all








section \<open>Legacy keys\<close>

lemma raw_start_truthy:
  "truthy (raw_start b) \<longleftrightarrow> truthy (dict_get b ''start'') \<or> truthy (dict_get b ''startTime'')"
  unfolding raw_start_def py_or_def by simp

lemma raw_end_truthy:
  "truthy (raw_end b) \<longleftrightarrow> truthy (dict_get b ''end'') \<or> truthy (dict_get b ''endTime'')"
  unfolding raw_end_def py_or_def by simp

lemma raw_start_absent: "b ''start'' = None \<Longrightarrow> raw_start b = dict_get b ''startTime''"
  unfolding raw_start_def py_or_def dict_get_def by simp

lemma raw_end_absent: "b ''end'' = None \<Longrightarrow> raw_end b = dict_get b ''endTime''"
  unfolding raw_end_def py_or_def dict_get_def by simp

lemma raw_legacy:
  "truthy (raw_start (legacy_to_current b)) = truthy (raw_start b)"
  "truthy (raw_end (legacy_to_current b)) = truthy (raw_end b)"
  "truthy (raw_start b) \<Longrightarrow> raw_start (legacy_to_current b) = raw_start b"
  "truthy (raw_end b) \<Longrightarrow> raw_end (legacy_to_current b) = raw_end b"
  unfolding legacy_to_current_def raw_start_def raw_end_def py_or_def dict_get_def
  by (auto split: option.splits)

lemma block_events_legacy:
  "block_events f ss se (legacy_to_current b) = block_events f ss se b"
proof (cases "truthy (raw_start b) \<and> truthy (raw_end b)")
  case True
  then have e: "raw_start (legacy_to_current b) = raw_start b" "raw_end (legacy_to_current b) = raw_end b"
    by (simp_all add: raw_legacy)
  show ?thesis unfolding block_events_def e by (rule refl)
next
  case False
  then show ?thesis unfolding block_events_def using raw_legacy(1,2)[of b] by auto
qed

lemma format_block_legacy:
  "format_block f strf (legacy_to_current b) = format_block f strf b"
proof (cases "truthy (raw_start b) \<and> truthy (raw_end b)")
  case True
  then have e: "raw_start (legacy_to_current b) = raw_start b" "raw_end (legacy_to_current b) = raw_end b"
    by (simp_all add: raw_legacy)
  show ?thesis unfolding format_block_def e by (rule refl)
next
  case False
  then show ?thesis unfolding format_block_def using raw_legacy(1,2)[of b] by auto
qed

lemma collect_blocks_map:
  assumes "\<And>b. block_events f ss se (g b) = block_events f ss se b"
  shows "collect_blocks f ss se evs (map g bs) = collect_blocks f ss se evs bs"
  by (induction bs arbitrary: evs) (simp_all add: assms split: sum.splits)

lemma collect_persons_map:
  assumes "\<And>b. block_events f ss se (g b) = block_events f ss se b"
  shows "collect_persons f ss se evs (map (map_busy (map g)) ps) = collect_persons f ss se evs ps"
proof (induction ps arbitrary: evs)
  case Nil
  show ?case by simp
next
  case (Cons p ps)
  have "person_busy (map_busy (map g) p) = map g (person_busy p)"
    by (rule person_busy_map_busy) simp
  with Cons show ?case by (simp add: collect_blocks_map[OF assms] split: sum.splits)
qed

lemma format_blocks_map:
  assumes "\<And>b. format_block f strf (g b) = format_block f strf b"
  shows "format_blocks f strf acc (map g bs) = format_blocks f strf acc bs"
  by (induction bs arbitrary: acc) (simp_all add: assms split: sum.splits)

lemma format_persons_map:
  assumes "\<And>b. format_block f strf (g b) = format_block f strf b"
  shows "format_persons f strf acc (map (map_busy (map g)) ps) = format_persons f strf acc ps"
proof (induction ps arbitrary: acc)
  case Nil
  show ?case by simp
next
  case (Cons p ps)
  have "person_busy (map_busy (map g) p) = map g (person_busy p)"
    by (rule person_busy_map_busy) simp
  moreover have "interviewerId (map_busy (map g) p) = interviewerId p"
    "person_name (map_busy (map g) p) = person_name p"
    unfolding map_busy_def person_name_def by simp_all
  ultimately show ?case using Cons
    by (simp add: format_blocks_map[OF assms] split: sum.splits)
qed

lemma raw_start_fallback:
  "raw_start b = (if truthy (dict_get b ''start'') then dict_get b ''start''
                  else dict_get b ''startTime'')"
  unfolding raw_start_def py_or_def ..

lemma raw_end_fallback:
  "raw_end b = (if truthy (dict_get b ''end'') then dict_get b ''end'' else dict_get b ''endTime'')"
  unfolding raw_end_def py_or_def ..

lemma parse_error: "parse_iso8601 f v = Inl x \<Longrightarrow> x = ValueError"
  unfolding parse_iso8601_def Let_def
  by (auto split: pyval.splits option.splits prod.splits)

lemma format_block_dropped:
  "format_block f strf b = Inr [] \<longleftrightarrow> \<not> truthy (raw_start b) \<or> \<not> truthy (raw_end b)"
  unfolding format_block_def format_datetime_human_readable_def
  by (auto split: sum.splits)

lemma block_processed:
  assumes "truthy (raw_start b)" "truthy (raw_end b)"
    and "parse_iso8601 f (raw_start b) = Inr s" "parse_iso8601 f (raw_end b) = Inr e"
  shows "format_block f strf b = Inr [(strf s, strf e)]"
    and "block_events f ss se b
           = Inr (if instant_of s < instant_of e
                  then interval_events ss se (instant_of s, instant_of e) else [])"
proof -
  show "format_block f strf b = Inr [(strf s, strf e)]"
    unfolding format_block_def format_datetime_human_readable_def using assms by simp
  show "block_events f ss se b
           = Inr (if instant_of s < instant_of e
                  then interval_events ss se (instant_of s, instant_of e) else [])"
    unfolding block_events_def interval_events_def using assms
    by (auto split: option.splits)
qed

lemma block_unparsable:
  assumes "truthy (raw_start b)" "truthy (raw_end b)"
    and "parse_iso8601 f (raw_start b) = Inl ValueError \<or> parse_iso8601 f (raw_end b) = Inl ValueError"
  shows "format_block f strf b = Inl ValueError" "block_events f ss se b = Inl ValueError"
proof -
  show "format_block f strf b = Inl ValueError"
    unfolding format_block_def format_datetime_human_readable_def using assms
    by (auto split: sum.splits dest: parse_error)
  show "block_events f ss se b = Inl ValueError"
    unfolding block_events_def using assms
    by (auto split: sum.splits dest: parse_error)
qed

lemma legacy_only_raw:
  assumes "b ''start'' = None" "b ''end'' = None" "b ''startTime'' = Some v" "b ''endTime'' = Some w"
  shows "raw_start b = v" "raw_end b = w"
  using assms unfolding raw_start_def raw_end_def py_or_def dict_get_def by simp_all

lemma current_only_raw:
  assumes "truthy v" "truthy w"
  shows "raw_start [''start'' \<mapsto> v, ''end'' \<mapsto> w] = v" "raw_end [''start'' \<mapsto> v, ''end'' \<mapsto> w] = w"
  using assms unfolding raw_start_def raw_end_def py_or_def dict_get_def by simp_all

lemma format_blocks_Inr:
  "format_blocks f strf acc bs = Inr out \<Longrightarrow>
   out = acc @ concat (map (\<lambda>b. case format_block f strf b of Inr xs \<Rightarrow> xs | Inl x \<Rightarrow> []) bs)"
proof (induction bs arbitrary: acc)
  case Nil
  then show ?case by simp
next
  case (Cons b bs)
  from Cons.prems obtain new where n: "format_block f strf b = Inr new"
    and r: "format_blocks f strf (acc @ new) bs = Inr out"
    by (auto split: sum.splits)
  from Cons.IH[OF r] n show ?case by simp
qed

lemma format_persons_Inr:
  "format_persons f strf acc ps = Inr ds \<Longrightarrow>
   ds = acc @ map (\<lambda>p. \<lparr>display_interviewerId = interviewerId p, display_name = person_name p,
                         busyTimes = concat (map (\<lambda>b. case format_block f strf b of
                                                          Inr xs \<Rightarrow> xs | Inl x \<Rightarrow> [])
                                               (person_busy p))\<rparr>) ps"
proof (induction ps arbitrary: acc)
  case Nil
  then show ?case by simp
next
  case (Cons p ps)
  from Cons.prems obtain bt where b: "format_blocks f strf [] (person_busy p) = Inr bt"
    and r: "format_persons f strf
              (acc @ [\<lparr>display_interviewerId = interviewerId p, display_name = person_name p,
                         busyTimes = bt\<rparr>]) ps = Inr ds"
    by (auto split: sum.splits)
  from format_blocks_Inr[OF b] Cons.IH[OF r] show ?case by simp
qed

lemma format_block_readable: "block_readable f b \<Longrightarrow> \<exists>new. format_block f strf b = Inr new"
  unfolding format_block_def format_datetime_human_readable_def block_readable_def
  by (auto split: if_splits sum.splits)

lemma format_blocks_readable:
  "list_all (block_readable f) bs \<Longrightarrow> \<exists>out. format_blocks f strf acc bs = Inr out"
proof (induction bs arbitrary: acc)
  case Nil
  then show ?case by simp
next
  case (Cons b bs)
  then obtain new where "format_block f strf b = Inr new"
    using format_block_readable[of f b strf] by auto
  with Cons show ?case by simp
qed

lemma format_persons_readable:
  "schedules_readable f ps \<Longrightarrow> \<exists>ds. format_persons f strf acc ps = Inr ds"
proof (induction ps arbitrary: acc)
  case Nil
  then show ?case by simp
next
  case (Cons p ps)
  then obtain bt where "format_blocks f strf [] (person_busy p) = Inr bt"
    using format_blocks_readable[of f "person_busy p" strf "[]"]
    by (auto simp: schedules_readable_def)
  with Cons show ?case by (simp add: schedules_readable_def)
qed

lemma touching_formatted:
  "format_interviewer_busy_times_human_readable example_fromisoformat example_strftime touching_schedules
   = Inr [\<lparr>display_interviewerId = 1, display_name = ''A'', busyTimes = [(''10:00'', ''11:00'')]\<rparr>,
          \<lparr>display_interviewerId = 2, display_name = ''B'', busyTimes = [(''11:00'', ''12:00'')]\<rparr>]"
  unfolding format_interviewer_busy_times_human_readable_def touching_schedules_def
  by (simp add: person_busy_def person_name_def format_block_def format_datetime_human_readable_def
      raw_start_def raw_end_def py_or_def dict_get_def parse_examples example_strftime_def
      mk_datetime_def)

lemma legacy_example:
  "map (map_busy (map legacy_to_current)) legacy_schedules = touching_schedules"
  unfolding legacy_schedules_def touching_schedules_def map_busy_def legacy_to_current_def
  by (auto simp: fun_eq_iff)

text \<open>
  Claim C10 (legacy-key fallback). In the merger and in the formatter the raw start of a
  block is the value under \<^verbatim>\<open>start\<close> when that is truthy and the value under
  \<^verbatim>\<open>startTime\<close> otherwise, so it is truthy exactly when one of the two is; likewise for the
  end. A block whose raw start or raw end is not truthy is skipped as missing by both, and it
  is the only kind of block the formatter drops. A block whose raw values are both truthy is
  processed: when they parse, the formatter emits the one entry of the two formatted
  datetimes and the merger emits the events of the parsed interval; when one does not parse,
  both raise \<^verbatim>\<open>ValueError\<close>. In particular a block with only the legacy keys gives the same
  entry and the same events as the block with these values under \<^verbatim>\<open>start\<close> and \<^verbatim>\<open>end\<close>,
  and so do whole schedules. A returned formatter result lists, for every schedule entry in
  order, the entries of its blocks, and the formatter returns whenever the blocks can be read.
\<close>

theorem legacy_key_fallback:
  "(truthy (raw_start b) \<longleftrightarrow> truthy (dict_get b ''start'') \<or> truthy (dict_get b ''startTime''))
   \<and> (truthy (raw_end b) \<longleftrightarrow> truthy (dict_get b ''end'') \<or> truthy (dict_get b ''endTime''))
   \<and> (b ''start'' = None \<longrightarrow> raw_start b = dict_get b ''startTime'')
   \<and> (b ''end'' = None \<longrightarrow> raw_end b = dict_get b ''endTime'')
   \<and> (\<not> truthy (raw_start b) \<or> \<not> truthy (raw_end b) \<longrightarrow>
        block_events fromiso search_start search_end b = Inr [] \<and> format_block fromiso strf b = Inr [])
   \<and> block_events fromiso search_start search_end (legacy_to_current b)
        = block_events fromiso search_start search_end b
   \<and> format_block fromiso strf (legacy_to_current b) = format_block fromiso strf b
   \<and> compute_common_free_windows fromiso (map (map_busy (map legacy_to_current)) busy_schedules)
          search_start search_end
        = compute_common_free_windows fromiso busy_schedules search_start search_end
   \<and> format_interviewer_busy_times_human_readable fromiso strf
          (map (map_busy (map legacy_to_current)) busy_schedules)
        = format_interviewer_busy_times_human_readable fromiso strf busy_schedules
   \<and> raw_start b = (if truthy (dict_get b ''start'') then dict_get b ''start''
                     else dict_get b ''startTime'')
   \<and> raw_end b = (if truthy (dict_get b ''end'') then dict_get b ''end'' else dict_get b ''endTime'')
   \<and> (format_block fromiso strf b = Inr [] \<longleftrightarrow> \<not> truthy (raw_start b) \<or> \<not> truthy (raw_end b))
   \<and> (truthy (raw_start b) \<and> truthy (raw_end b)
        \<and> parse_iso8601 fromiso (raw_start b) = Inr s \<and> parse_iso8601 fromiso (raw_end b) = Inr e \<longrightarrow>
        format_block fromiso strf b = Inr [(strf s, strf e)]
        \<and> block_events fromiso search_start search_end b
            = Inr (if instant_of s < instant_of e
                   then interval_events search_start search_end (instant_of s, instant_of e)
                   else []))
   \<and> (truthy (raw_start b) \<and> truthy (raw_end b)
        \<and> (parse_iso8601 fromiso (raw_start b) = Inl ValueError
            \<or> parse_iso8601 fromiso (raw_end b) = Inl ValueError) \<longrightarrow>
        format_block fromiso strf b = Inl ValueError
        \<and> block_events fromiso search_start search_end b = Inl ValueError)
   \<and> (b ''start'' = None \<and> b ''end'' = None \<and> b ''startTime'' = Some v \<and> b ''endTime'' = Some w
        \<and> truthy v \<and> truthy w
        \<and> parse_iso8601 fromiso v = Inr s \<and> parse_iso8601 fromiso w = Inr e \<longrightarrow>
        format_block fromiso strf b = Inr [(strf s, strf e)]
        \<and> format_block fromiso strf [''start'' \<mapsto> v, ''end'' \<mapsto> w] = Inr [(strf s, strf e)]
        \<and> block_events fromiso search_start search_end b
            = Inr (if instant_of s < instant_of e
                   then interval_events search_start search_end (instant_of s, instant_of e)
                   else [])
        \<and> block_events fromiso search_start search_end [''start'' \<mapsto> v, ''end'' \<mapsto> w]
            = block_events fromiso search_start search_end b)
   \<and> (\<forall>ds. format_interviewer_busy_times_human_readable fromiso strf busy_schedules = Inr ds \<longrightarrow>
        ds = map (\<lambda>p. \<lparr>display_interviewerId = interviewerId p, display_name = person_name p,
                        busyTimes = concat (map (\<lambda>b. case format_block fromiso strf b of
                                                         Inr xs \<Rightarrow> xs | Inl x \<Rightarrow> [])
                                              (person_busy p))\<rparr>) busy_schedules)
   \<and> (schedules_readable fromiso busy_schedules \<longrightarrow>
        (\<exists>ds. format_interviewer_busy_times_human_readable fromiso strf busy_schedules = Inr ds))"
proof -
  have skip: "\<not> truthy (raw_start b) \<or> \<not> truthy (raw_end b) \<longrightarrow>
        block_events fromiso search_start search_end b = Inr [] \<and> format_block fromiso strf b = Inr []"
    unfolding block_events_def format_block_def by auto
  have c: "compute_common_free_windows fromiso (map (map_busy (map legacy_to_current)) busy_schedules)
          search_start search_end
        = compute_common_free_windows fromiso busy_schedules search_start search_end"
    unfolding compute_common_free_windows_def
    by (simp add: collect_persons_map[OF block_events_legacy])
  have h: "format_interviewer_busy_times_human_readable fromiso strf
          (map (map_busy (map legacy_to_current)) busy_schedules)
        = format_interviewer_busy_times_human_readable fromiso strf busy_schedules"
    unfolding format_interviewer_busy_times_human_readable_def
    by (rule format_persons_map[OF format_block_legacy])
  have a1: "b ''start'' = None \<longrightarrow> raw_start b = dict_get b ''startTime''"
    using raw_start_absent[of b] by (rule impI)
  have a2: "b ''end'' = None \<longrightarrow> raw_end b = dict_get b ''endTime''"
    using raw_end_absent[of b] by (rule impI)
  have n4: "truthy (raw_start b) \<and> truthy (raw_end b)
        \<and> parse_iso8601 fromiso (raw_start b) = Inr s \<and> parse_iso8601 fromiso (raw_end b) = Inr e \<longrightarrow>
        format_block fromiso strf b = Inr [(strf s, strf e)]
        \<and> block_events fromiso search_start search_end b
            = Inr (if instant_of s < instant_of e
                   then interval_events search_start search_end (instant_of s, instant_of e)
                   else [])"
    using block_processed[of b fromiso s e] by blast
  have n5: "truthy (raw_start b) \<and> truthy (raw_end b)
        \<and> (parse_iso8601 fromiso (raw_start b) = Inl ValueError
            \<or> parse_iso8601 fromiso (raw_end b) = Inl ValueError) \<longrightarrow>
        format_block fromiso strf b = Inl ValueError
        \<and> block_events fromiso search_start search_end b = Inl ValueError"
    using block_unparsable[of b fromiso] by blast
  have n6: "b ''start'' = None \<and> b ''end'' = None \<and> b ''startTime'' = Some v \<and> b ''endTime'' = Some w
        \<and> truthy v \<and> truthy w
        \<and> parse_iso8601 fromiso v = Inr s \<and> parse_iso8601 fromiso w = Inr e \<longrightarrow>
        format_block fromiso strf b = Inr [(strf s, strf e)]
        \<and> format_block fromiso strf [''start'' \<mapsto> v, ''end'' \<mapsto> w] = Inr [(strf s, strf e)]
        \<and> block_events fromiso search_start search_end b
            = Inr (if instant_of s < instant_of e
                   then interval_events search_start search_end (instant_of s, instant_of e)
                   else [])
        \<and> block_events fromiso search_start search_end [''start'' \<mapsto> v, ''end'' \<mapsto> w]
            = block_events fromiso search_start search_end b"
  proof (intro impI, elim conjE)
    assume k: "b ''start'' = None" "b ''end'' = None" "b ''startTime'' = Some v" "b ''endTime'' = Some w"
      and t: "truthy v" "truthy w"
      and p: "parse_iso8601 fromiso v = Inr s" "parse_iso8601 fromiso w = Inr e"
    note rb = legacy_only_raw[OF k]
    note rc = current_only_raw[OF t]
    have 1: "format_block fromiso strf b = Inr [(strf s, strf e)]"
      by (rule block_processed(1)) (simp_all add: rb t p)
    have 2: "format_block fromiso strf [''start'' \<mapsto> v, ''end'' \<mapsto> w] = Inr [(strf s, strf e)]"
      by (rule block_processed(1)) (simp_all add: rc t p)
    have 3: "block_events fromiso search_start search_end b
            = Inr (if instant_of s < instant_of e
                   then interval_events search_start search_end (instant_of s, instant_of e)
                   else [])"
      by (rule block_processed(2)) (simp_all add: rb t p)
    have 4: "block_events fromiso search_start search_end [''start'' \<mapsto> v, ''end'' \<mapsto> w]
            = Inr (if instant_of s < instant_of e
                   then interval_events search_start search_end (instant_of s, instant_of e)
                   else [])"
      by (rule block_processed(2)) (simp_all add: rc t p)
    from 1 2 3 4
    show "format_block fromiso strf b = Inr [(strf s, strf e)]
        \<and> format_block fromiso strf [''start'' \<mapsto> v, ''end'' \<mapsto> w] = Inr [(strf s, strf e)]
        \<and> block_events fromiso search_start search_end b
            = Inr (if instant_of s < instant_of e
                   then interval_events search_start search_end (instant_of s, instant_of e)
                   else [])
        \<and> block_events fromiso search_start search_end [''start'' \<mapsto> v, ''end'' \<mapsto> w]
            = block_events fromiso search_start search_end b"
      by simp
  qed
  have n7: "\<forall>ds. format_interviewer_busy_times_human_readable fromiso strf busy_schedules = Inr ds \<longrightarrow>
        ds = map (\<lambda>p. \<lparr>display_interviewerId = interviewerId p, display_name = person_name p,
                        busyTimes = concat (map (\<lambda>b. case format_block fromiso strf b of
                                                         Inr xs \<Rightarrow> xs | Inl x \<Rightarrow> [])
                                              (person_busy p))\<rparr>) busy_schedules"
    unfolding format_interviewer_busy_times_human_readable_def
    using format_persons_Inr[of fromiso strf "[]" busy_schedules] by simp
  have n8: "schedules_readable fromiso busy_schedules \<longrightarrow>
        (\<exists>ds. format_interviewer_busy_times_human_readable fromiso strf busy_schedules = Inr ds)"
    unfolding format_interviewer_busy_times_human_readable_def
    using format_persons_readable[of fromiso busy_schedules strf "[]"] by blast
  from raw_start_truthy[of b] raw_end_truthy[of b] a1 a2
    skip block_events_legacy[of fromiso search_start search_end b]
    format_block_legacy[of fromiso strf b] c h
    raw_start_fallback[of b] raw_end_fallback[of b] format_block_dropped[of fromiso strf b]
    n4 n5 n6 n7 n8
  show ?thesis by (intro conjI)
qed

theorem legacy_key_fallback_witness:
  "compute_common_free_windows example_fromisoformat legacy_schedules
        (mk_datetime 21915 9 0 0 0) (mk_datetime 21915 17 0 0 0)
      = Inr [(mk_datetime 21915 9 0 0 0, mk_datetime 21915 10 0 0 0),
             (mk_datetime 21915 12 0 0 0, mk_datetime 21915 17 0 0 0)]
   \<and> block_events example_fromisoformat (mk_datetime 21915 9 0 0 0) (mk_datetime 21915 17 0 0 0)
        [''startTime'' \<mapsto> PyStr ''2030-01-01T10:00:00Z''] = Inr []
   \<and> raw_start [''startTime'' \<mapsto> PyStr ''2030-01-01T10:00:00Z''] = PyStr ''2030-01-01T10:00:00Z''
   \<and> format_block example_fromisoformat example_strftime
        [''startTime'' \<mapsto> PyStr ''2030-01-01T10:00:00Z'',
         ''endTime'' \<mapsto> PyStr ''2030-01-01T11:00:00Z''] = Inr [(''10:00'', ''11:00'')]
   \<and> format_block example_fromisoformat example_strftime
        [''start'' \<mapsto> PyStr ''2030-01-01T10:00:00Z'',
         ''end'' \<mapsto> PyStr ''2030-01-01T11:00:00Z''] = Inr [(''10:00'', ''11:00'')]
   \<and> format_interviewer_busy_times_human_readable example_fromisoformat example_strftime
        legacy_schedules
      = Inr [\<lparr>display_interviewerId = 1, display_name = ''A'', busyTimes = [(''10:00'', ''11:00'')]\<rparr>,
             \<lparr>display_interviewerId = 2, display_name = ''B'', busyTimes = [(''11:00'', ''12:00'')]\<rparr>]"
proof -
  note t = legacy_key_fallback[of "[''startTime'' \<mapsto> PyStr ''2030-01-01T10:00:00Z'']"
      example_fromisoformat "mk_datetime 21915 9 0 0 0" "mk_datetime 21915 17 0 0 0" example_strftime
      legacy_schedules]
  from t have "compute_common_free_windows example_fromisoformat
          (map (map_busy (map legacy_to_current)) legacy_schedules)
          (mk_datetime 21915 9 0 0 0) (mk_datetime 21915 17 0 0 0)
        = compute_common_free_windows example_fromisoformat legacy_schedules
          (mk_datetime 21915 9 0 0 0) (mk_datetime 21915 17 0 0 0)"
    by blast
  then have 1: "compute_common_free_windows example_fromisoformat legacy_schedules
        (mk_datetime 21915 9 0 0 0) (mk_datetime 21915 17 0 0 0)
      = Inr [(mk_datetime 21915 9 0 0 0, mk_datetime 21915 10 0 0 0),
             (mk_datetime 21915 12 0 0 0, mk_datetime 21915 17 0 0 0)]"
    unfolding legacy_example touching_windows by simp
  have e: "\<not> truthy (raw_end [''startTime'' \<mapsto> PyStr ''2030-01-01T10:00:00Z''])"
    by (simp add: raw_end_def py_or_def dict_get_def)
  from t e have 2: "block_events example_fromisoformat (mk_datetime 21915 9 0 0 0)
        (mk_datetime 21915 17 0 0 0) [''startTime'' \<mapsto> PyStr ''2030-01-01T10:00:00Z''] = Inr []"
    by blast
  have a: "[''startTime'' \<mapsto> PyStr ''2030-01-01T10:00:00Z''] ''start'' = None" by simp
  from t a have "raw_start [''startTime'' \<mapsto> PyStr ''2030-01-01T10:00:00Z'']
      = dict_get [''startTime'' \<mapsto> PyStr ''2030-01-01T10:00:00Z''] ''startTime''"
    by blast
  then have 3: "raw_start [''startTime'' \<mapsto> PyStr ''2030-01-01T10:00:00Z''] = PyStr ''2030-01-01T10:00:00Z''"
    by (simp add: dict_get_def)
  let ?b = "[''startTime'' \<mapsto> PyStr ''2030-01-01T10:00:00Z'',
             ''endTime'' \<mapsto> PyStr ''2030-01-01T11:00:00Z'']"
  have k: "?b ''start'' = None \<and> ?b ''end'' = None
      \<and> ?b ''startTime'' = Some (PyStr ''2030-01-01T10:00:00Z'')
      \<and> ?b ''endTime'' = Some (PyStr ''2030-01-01T11:00:00Z'')
      \<and> truthy (PyStr ''2030-01-01T10:00:00Z'') \<and> truthy (PyStr ''2030-01-01T11:00:00Z'')
      \<and> parse_iso8601 example_fromisoformat (PyStr ''2030-01-01T10:00:00Z'')
          = Inr \<lparr>wall = mk_datetime 21915 10 0 0 0, utcoffset = 0\<rparr>
      \<and> parse_iso8601 example_fromisoformat (PyStr ''2030-01-01T11:00:00Z'')
          = Inr \<lparr>wall = mk_datetime 21915 11 0 0 0, utcoffset = 0\<rparr>"
    by (simp add: parse_examples)
  have f: "example_strftime \<lparr>wall = mk_datetime 21915 10 0 0 0, utcoffset = 0\<rparr> = ''10:00''"
    "example_strftime \<lparr>wall = mk_datetime 21915 11 0 0 0, utcoffset = 0\<rparr> = ''11:00''"
    unfolding example_strftime_def mk_datetime_def by simp_all
  from legacy_key_fallback[of ?b example_fromisoformat "mk_datetime 21915 9 0 0 0"
      "mk_datetime 21915 17 0 0 0" example_strftime legacy_schedules
      "\<lparr>wall = mk_datetime 21915 10 0 0 0, utcoffset = 0\<rparr>"
      "\<lparr>wall = mk_datetime 21915 11 0 0 0, utcoffset = 0\<rparr>"
      "PyStr ''2030-01-01T10:00:00Z''" "PyStr ''2030-01-01T11:00:00Z''"] k
  have 45: "format_block example_fromisoformat example_strftime ?b
        = Inr [(example_strftime \<lparr>wall = mk_datetime 21915 10 0 0 0, utcoffset = 0\<rparr>,
                example_strftime \<lparr>wall = mk_datetime 21915 11 0 0 0, utcoffset = 0\<rparr>)]"
    "format_block example_fromisoformat example_strftime
        [''start'' \<mapsto> PyStr ''2030-01-01T10:00:00Z'', ''end'' \<mapsto> PyStr ''2030-01-01T11:00:00Z'']
        = Inr [(example_strftime \<lparr>wall = mk_datetime 21915 10 0 0 0, utcoffset = 0\<rparr>,
                example_strftime \<lparr>wall = mk_datetime 21915 11 0 0 0, utcoffset = 0\<rparr>)]"
    by blast+
  from t have "format_interviewer_busy_times_human_readable example_fromisoformat example_strftime
          (map (map_busy (map legacy_to_current)) legacy_schedules)
        = format_interviewer_busy_times_human_readable example_fromisoformat example_strftime
            legacy_schedules"
    by blast
  then have 6: "format_interviewer_busy_times_human_readable example_fromisoformat example_strftime
        legacy_schedules
      = Inr [\<lparr>display_interviewerId = 1, display_name = ''A'', busyTimes = [(''10:00'', ''11:00'')]\<rparr>,
             \<lparr>display_interviewerId = 2, display_name = ''B'', busyTimes = [(''11:00'', ''12:00'')]\<rparr>]"
    unfolding legacy_example touching_formatted by simp
  from 1 2 3 45[unfolded f] 6 show ?thesis by (intro conjI)
qed

section \<open>The slot expander\<close>

lemma expand_window_slots:
  "expand_window d wsh weh lvs acc start = Inr out \<Longrightarrow>
   \<exists>new. out = acc @ new \<and>
     (\<forall>slot\<in>set new. start \<le> fst slot \<and> fst slot \<le> lvs \<and> snd slot = fst slot + d
        \<and> is_within_workday_utc (fst slot) (snd slot) wsh weh = Inr True)"
proof (induction d wsh weh lvs acc start arbitrary: out rule: expand_window.induct)
  case (1 d wsh weh lvs acc start)
  show ?case
  proof (cases "start \<le> lvs")
    case False
    with "1.prems" have "out = acc" by (subst (asm) expand_window.simps) simp
    then show ?thesis by simp
  next
    case True
    from "1.prems" True obtain within where w: "is_within_workday_utc start (start + d) wsh weh = Inr within"
      and r: "expand_window d wsh weh lvs (if within then acc @ [(start, start + d)] else acc)
                (start + HALF_HOUR) = Inr out"
      by (subst (asm) expand_window.simps) (auto simp: Let_def split: sum.splits)
    from "1.IH"[OF True refl w r] obtain new where
      new: "out = (if within then acc @ [(start, start + d)] else acc) @ new"
      "\<forall>slot\<in>set new. start + HALF_HOUR \<le> fst slot \<and> fst slot \<le> lvs \<and> snd slot = fst slot + d
        \<and> is_within_workday_utc (fst slot) (snd slot) wsh weh = Inr True"
      by blast
    have hh: "0 < HALF_HOUR" unfolding HALF_HOUR_def timedelta_minutes_def by simp
    let ?new = "(if within then [(start, start + d)] else []) @ new"
    have "out = acc @ ?new" using new(1) by simp
    moreover have "\<forall>slot\<in>set ?new. start \<le> fst slot \<and> fst slot \<le> lvs \<and> snd slot = fst slot + d
        \<and> is_within_workday_utc (fst slot) (snd slot) wsh weh = Inr True"
      using new(2) hh True w by auto
    ultimately show ?thesis by blast
  qed
qed

lemma expand_windows_slots:
  "expand_windows d wsh weh mss acc ws = Inr out \<Longrightarrow>
   \<exists>new. out = acc @ new \<and>
     (\<forall>slot\<in>set new. \<exists>w\<in>set ws.
        ceil_to_half_hour_boundary (max (fst w) mss) \<le> fst slot \<and> fst slot \<le> snd w - d
        \<and> snd slot = fst slot + d
        \<and> is_within_workday_utc (fst slot) (snd slot) wsh weh = Inr True)"
proof (induction ws arbitrary: acc)
  case Nil
  then show ?case by simp
next
  case (Cons w ws)
  obtain lo hi where w: "w = (lo, hi)" by (cases w)
  from Cons.prems obtain mid where
    m: "expand_window d wsh weh (hi - d) acc (ceil_to_half_hour_boundary (max lo mss)) = Inr mid"
    and r: "expand_windows d wsh weh mss mid ws = Inr out"
    unfolding w by (auto simp: Let_def split: sum.splits)
  from expand_window_slots[OF m] obtain new1 where n1: "mid = acc @ new1"
    "\<forall>slot\<in>set new1. ceil_to_half_hour_boundary (max lo mss) \<le> fst slot \<and> fst slot \<le> hi - d
        \<and> snd slot = fst slot + d \<and> is_within_workday_utc (fst slot) (snd slot) wsh weh = Inr True"
    by blast
  from Cons.IH[OF r] obtain new2 where n2: "out = mid @ new2"
    "\<forall>slot\<in>set new2. \<exists>w\<in>set ws.
        ceil_to_half_hour_boundary (max (fst w) mss) \<le> fst slot \<and> fst slot \<le> snd w - d
        \<and> snd slot = fst slot + d \<and> is_within_workday_utc (fst slot) (snd slot) wsh weh = Inr True"
    by blast
  have "out = acc @ (new1 @ new2)" using n1(1) n2(1) by simp
  moreover have "\<forall>slot\<in>set (new1 @ new2). \<exists>w'\<in>set (w # ws).
        ceil_to_half_hour_boundary (max (fst w') mss) \<le> fst slot \<and> fst slot \<le> snd w' - d
        \<and> snd slot = fst slot + d \<and> is_within_workday_utc (fst slot) (snd slot) wsh weh = Inr True"
    using n1(2) n2(2) unfolding w by auto
  ultimately show ?case by blast
qed

lemma is_valid_Inr:
  "is_valid q = Inr vd \<Longrightarrow> vd = q \<and> hour_field_ok (q_start_hour q) \<and> hour_field_ok (q_end_hour q)"
  unfolding is_valid_def validate_def by (auto split: if_splits)

lemma view_success:
  assumes "availability_view_get fromiso strf provider now (Some template) q
             = (Inr (Response_200 payload), calls)"
  shows "resolved_search_start now q < resolved_search_end now q
      \<and> resolved_start_hour q < resolved_end_hour q
      \<and> (\<exists>ws. compute_common_free_windows fromiso (provider (interviewers template))
                   (resolved_search_start now q) (resolved_search_end now q) = Inr ws
            \<and> expand_windows (timedelta_minutes (duration template))
                 (resolved_start_hour q) (resolved_end_hour q)
                 (ceil_to_half_hour_boundary
                    (max (resolved_search_start now q) (now + timedelta_hours 24))) [] ws
               = Inr (availableSlots payload))
      \<and> durationMinutes payload = duration template
      \<and> calls = [interviewers template]"
proof -
  from assms obtain vd where v: "is_valid q = Inr vd"
    unfolding availability_view_get_def Let_def by (auto split: sum.splits)
  from is_valid_Inr[OF v] have vd: "vd = q" by simp
  from assms show ?thesis
    unfolding availability_view_get_def Let_def v vd
      resolved_search_start_def resolved_search_end_def resolved_start_hour_def resolved_end_hour_def
    by (auto split: sum.splits if_splits)
qed

section \<open>Properties of the view\<close>

lemma ceil_ge: "t \<le> ceil_to_half_hour_boundary t"
  using ceil_char[of t] by blast

lemma view_not_found:
  "availability_view_get fromiso strf provider now None q
     = (Inr (Response_404 ''Interview template not found''), [])"
  unfolding availability_view_get_def by simp

text \<open>
  Claim C7 (invalid range short-circuit). If, after the defaults, the search end is not after
  the search start or the workday start hour is not before the end hour, the view ends in a
  rejection (the serializer's \<^verbatim>\<open>ValidationError\<close> or one of the view's two 400 responses),
  it has made no call to the schedule provider, and the outcome is the same whatever the
  provider would have returned: no sweep or expansion result enters it.
\<close>

theorem invalid_range_rejected:
  assumes "resolved_search_end now q \<le> resolved_search_start now q
           \<or> resolved_end_hour q \<le> resolved_start_hour q"
  shows "\<exists>r. availability_view_get fromiso strf provider now (Some template) q = (r, [])
           \<and> (r = Inl ValidationError \<or> r = Inr (Response_400 ''end must be after start'')
                \<or> r = Inr (Response_400 ''end_hour must be after start_hour''))
           \<and> (\<forall>provider'. availability_view_get fromiso strf provider' now (Some template) q = (r, []))"
proof (cases "is_valid q")
  case (Inl e)
  then have "e = ValidationError" unfolding is_valid_def validate_def by (auto split: if_splits)
  with Inl show ?thesis unfolding availability_view_get_def Let_def by simp
next
  case (Inr vd)
  from is_valid_Inr[OF Inr] have vd: "vd = q" by simp
  show ?thesis
  proof (cases "resolved_search_end now q \<le> resolved_search_start now q")
    case True
    then show ?thesis
      unfolding availability_view_get_def Let_def Inr vd
        resolved_search_start_def resolved_search_end_def
      by simp
  next
    case False
    with assms have h: "resolved_end_hour q \<le> resolved_start_hour q" by simp
    from False h show ?thesis
      unfolding availability_view_get_def Let_def Inr vd
        resolved_search_start_def resolved_search_end_def resolved_start_hour_def resolved_end_hour_def
      by simp
  qed
qed

text \<open>
  Claim C5 (notice floor). In every successful response, each slot starts at or after
  \<^verbatim>\<open>ceil_to_half_hour_boundary(now + 24 hours)\<close>, whatever search start was requested.
\<close>

theorem notice_floor:
  assumes "availability_view_get fromiso strf provider now template_lookup q
             = (Inr (Response_200 payload), calls)"
  shows "\<forall>slot\<in>set (availableSlots payload).
           ceil_to_half_hour_boundary (now + timedelta_hours 24) \<le> fst slot"
proof
  fix slot
  assume slot: "slot \<in> set (availableSlots payload)"
  from assms obtain template where t: "template_lookup = Some template"
    by (cases template_lookup) (simp_all add: view_not_found)
  define mss where
    "mss = ceil_to_half_hour_boundary (max (resolved_search_start now q) (now + timedelta_hours 24))"
  from view_success[OF assms[unfolded t]] obtain ws where
    e: "expand_windows (timedelta_minutes (duration template)) (resolved_start_hour q)
          (resolved_end_hour q) mss [] ws = Inr (availableSlots payload)"
    unfolding mss_def by blast
  from expand_windows_slots[OF e] slot obtain w where
    w: "ceil_to_half_hour_boundary (max (fst w) mss) \<le> fst slot"
    by auto
  have "ceil_to_half_hour_boundary (now + timedelta_hours 24) \<le> mss"
    unfolding mss_def by (rule ceil_mono) simp
  also have "\<dots> \<le> max (fst w) mss" by simp
  also have "\<dots> \<le> ceil_to_half_hour_boundary (max (fst w) mss)" by (rule ceil_ge)
  also note w
  finally show "ceil_to_half_hour_boundary (now + timedelta_hours 24) \<le> fst slot" .
qed

text \<open>
  Claim C1 (all-free invariant). In every successful response, the provider was called once
  with the template's interviewers, every slot has the template's duration, and no valid busy
  interval (start before end) of any fetched schedule overlaps any slot.
\<close>

theorem all_free:
  assumes "availability_view_get fromiso strf provider now template_lookup q
             = (Inr (Response_200 payload), calls)"
  shows "\<exists>template. template_lookup = Some template \<and> calls = [interviewers template]
       \<and> (\<forall>slot\<in>set (availableSlots payload).
             snd slot = fst slot + timedelta_minutes (durationMinutes payload)
             \<and> (\<forall>p\<in>set (provider (interviewers template)).
                  \<forall>iv\<in>set (person_intervals fromiso p). \<not> overlaps slot iv))"
proof -
  from assms obtain template where t: "template_lookup = Some template"
    by (cases template_lookup) (simp_all add: view_not_found)
  define ss where "ss = resolved_search_start now q"
  define se where "se = resolved_search_end now q"
  define mss where "mss = ceil_to_half_hour_boundary (max ss (now + timedelta_hours 24))"
  define d where "d = timedelta_minutes (duration template)"
  define schedules where "schedules = provider (interviewers template)"
  from view_success[OF assms[unfolded t]] obtain ws where
    lt: "ss < se"
    and c: "compute_common_free_windows fromiso schedules ss se = Inr ws"
    and e: "expand_windows d (resolved_start_hour q) (resolved_end_hour q) mss [] ws
              = Inr (availableSlots payload)"
    and dm: "durationMinutes payload = duration template"
    and calls: "calls = [interviewers template]"
    unfolding ss_def se_def mss_def d_def schedules_def by blast
  from merger_sweep[OF lt, of "busy_intervals fromiso schedules", folded compute_events[OF c]]
  have cov: "covered ws = {ss ..< se} - covered (map (clip ss se) (busy_intervals fromiso schedules))"
    by simp
  have slots: "snd slot = fst slot + timedelta_minutes (durationMinutes payload)
             \<and> (\<forall>p\<in>set schedules. \<forall>iv\<in>set (person_intervals fromiso p). \<not> overlaps slot iv)"
    if slot: "slot \<in> set (availableSlots payload)" for slot
  proof -
    from expand_windows_slots[OF e] slot obtain w where w: "w \<in> set ws"
      "ceil_to_half_hour_boundary (max (fst w) mss) \<le> fst slot" "fst slot \<le> snd w - d"
      "snd slot = fst slot + d"
      by auto
    have lo: "fst w \<le> fst slot"
      using w(2) ceil_ge[of "max (fst w) mss"] by simp
    have free: "\<not> overlaps slot iv" if p: "p \<in> set schedules" and iv: "iv \<in> set (person_intervals fromiso p)"
      for p iv
    proof
      assume o: "overlaps slot iv"
      define x where "x = max (fst slot) (fst iv)"
      from o have x: "fst slot \<le> x" "fst iv \<le> x" "x < snd slot" "x < snd iv"
        unfolding overlaps_def x_def by simp_all
      have "fst w \<le> x" "x < snd w" using lo x(1,3) w(3,4) by simp_all
      with w(1) have xc: "x \<in> covered ws" unfolding covered_mem by blast
      then have win: "ss \<le> x" "x < se" unfolding cov by simp_all
      have "iv \<in> set (busy_intervals fromiso schedules)"
        unfolding busy_intervals_def using p iv by auto
      then have "clip ss se iv \<in> set (map (clip ss se) (busy_intervals fromiso schedules))"
        by simp
      moreover have "fst (clip ss se iv) \<le> x" "x < snd (clip ss se iv)"
        unfolding clip_def using x(2,4) win by simp_all
      ultimately have "x \<in> covered (map (clip ss se) (busy_intervals fromiso schedules))"
        unfolding covered_mem by blast
      with xc show False unfolding cov by simp
    qed
    from w(4) free show ?thesis unfolding dm d_def by blast
  qed
  from t calls slots show ?thesis unfolding schedules_def by blast
qed

section \<open>Concrete runs\<close>

lemma touching_events_13:
  "collect_persons example_fromisoformat (mk_datetime 21915 9 0 0 0) (mk_datetime 21915 13 0 0 0) []
      touching_schedules
   = Inr [(mk_datetime 21915 10 0 0 0, 1), (mk_datetime 21915 11 0 0 0, - 1),
          (mk_datetime 21915 11 0 0 0, 1), (mk_datetime 21915 12 0 0 0, - 1)]"
  unfolding touching_schedules_def
  by (simp add: person_busy_def block_events_def raw_start_def raw_end_def py_or_def dict_get_def
      parse_examples instant_of_def intersect_half_open_interval_def Let_def mk_datetime_def)

lemma touching_windows_13:
  "compute_common_free_windows example_fromisoformat touching_schedules
      (mk_datetime 21915 9 0 0 0) (mk_datetime 21915 13 0 0 0)
   = Inr [(mk_datetime 21915 9 0 0 0, mk_datetime 21915 10 0 0 0),
          (mk_datetime 21915 12 0 0 0, mk_datetime 21915 13 0 0 0)]"
  unfolding compute_common_free_windows_def touching_events_13 Let_def
  by (simp add: mk_datetime_def less_eq_prod_def sweep.simps sum_deltas.simps Let_def)

lemma ceil_examples:
  "ceil_to_half_hour_boundary (mk_datetime 21915 9 0 0 0) = mk_datetime 21915 9 0 0 0"
  "ceil_to_half_hour_boundary (mk_datetime 21915 12 0 0 0) = mk_datetime 21915 12 0 0 0"
  "ceil_to_half_hour_boundary (mk_datetime 21915 11 15 0 0) = mk_datetime 21915 11 30 0 0"
  "ceil_to_half_hour_boundary (mk_datetime 21915 11 30 0 0) = mk_datetime 21915 11 30 0 0"
proof -
  have e: "mk_datetime 21915 9 0 0 0 = 1051938 * 1800000000 + 0"
    "mk_datetime 21915 12 0 0 0 = 1051944 * 1800000000 + 0"
    "mk_datetime 21915 11 15 0 0 = 1051942 * 1800000000 + 900000000"
    "mk_datetime 21915 11 30 0 0 = 1051943 * 1800000000 + 0"
    unfolding mk_datetime_def by simp_all
  show "ceil_to_half_hour_boundary (mk_datetime 21915 9 0 0 0) = mk_datetime 21915 9 0 0 0"
    unfolding e by (subst ceil_half_hour_multiple) simp_all
  show "ceil_to_half_hour_boundary (mk_datetime 21915 12 0 0 0) = mk_datetime 21915 12 0 0 0"
    unfolding e by (subst ceil_half_hour_multiple) simp_all
  show "ceil_to_half_hour_boundary (mk_datetime 21915 11 15 0 0) = mk_datetime 21915 11 30 0 0"
    unfolding e by (subst ceil_half_hour_multiple) simp_all
  show "ceil_to_half_hour_boundary (mk_datetime 21915 11 30 0 0) = mk_datetime 21915 11 30 0 0"
    unfolding e by (subst ceil_half_hour_multiple) simp_all
qed

lemma expand_window_single:
  assumes "start \<le> lvs" "lvs < start + HALF_HOUR"
    and "is_within_workday_utc start (start + d) wsh weh = Inr b"
  shows "expand_window d wsh weh lvs acc start = Inr (if b then acc @ [(start, start + d)] else acc)"
proof -
  have "expand_window d wsh weh lvs acc start
      = expand_window d wsh weh lvs (if b then acc @ [(start, start + d)] else acc) (start + HALF_HOUR)"
    using assms(1,3) by (subst expand_window.simps) (simp add: Let_def)
  also have "\<dots> = Inr (if b then acc @ [(start, start + d)] else acc)"
    using assms(2) by (subst expand_window.simps) simp
  finally show ?thesis .
qed

lemma expand_window_none:
  assumes "lvs < start"
  shows "expand_window d wsh weh lvs acc start = Inr acc"
  using assms by (subst expand_window.simps) simp

lemma within_examples:
  "is_within_workday_utc (mk_datetime 21915 9 0 0 0) (mk_datetime 21915 9 0 0 0 + timedelta_minutes 60) 9 17
     = Inr True"
  "is_within_workday_utc (mk_datetime 21915 12 0 0 0) (mk_datetime 21915 12 0 0 0 + timedelta_minutes 60) 9 17
     = Inr True"
  unfolding is_within_workday_utc_def replace_hour_def dt_date_def mk_datetime_def timedelta_minutes_def
  by simp_all

lemma example_expand:
  "expand_windows (timedelta_minutes 60) 9 17 (mk_datetime 21915 9 0 0 0) []
      [(mk_datetime 21915 9 0 0 0, mk_datetime 21915 10 0 0 0),
       (mk_datetime 21915 12 0 0 0, mk_datetime 21915 13 0 0 0)]
   = Inr [(mk_datetime 21915 9 0 0 0, mk_datetime 21915 10 0 0 0),
          (mk_datetime 21915 12 0 0 0, mk_datetime 21915 13 0 0 0)]"
proof -
  have m: "max (mk_datetime 21915 9 0 0 0) (mk_datetime 21915 9 0 0 0) = mk_datetime 21915 9 0 0 0"
    "max (mk_datetime 21915 12 0 0 0) (mk_datetime 21915 9 0 0 0) = mk_datetime 21915 12 0 0 0"
    unfolding mk_datetime_def by simp_all
  have e: "mk_datetime 21915 9 0 0 0 + timedelta_minutes 60 = mk_datetime 21915 10 0 0 0"
    "mk_datetime 21915 12 0 0 0 + timedelta_minutes 60 = mk_datetime 21915 13 0 0 0"
    unfolding mk_datetime_def timedelta_minutes_def by simp_all
  have 1: "expand_window (timedelta_minutes 60) 9 17 (mk_datetime 21915 10 0 0 0 - timedelta_minutes 60)
        [] (mk_datetime 21915 9 0 0 0) = Inr [(mk_datetime 21915 9 0 0 0, mk_datetime 21915 10 0 0 0)]"
    by (subst expand_window_single[OF _ _ within_examples(1)])
       (simp_all add: e mk_datetime_def timedelta_minutes_def HALF_HOUR_def)
  have 2: "expand_window (timedelta_minutes 60) 9 17 (mk_datetime 21915 13 0 0 0 - timedelta_minutes 60)
        [(mk_datetime 21915 9 0 0 0, mk_datetime 21915 10 0 0 0)] (mk_datetime 21915 12 0 0 0)
      = Inr [(mk_datetime 21915 9 0 0 0, mk_datetime 21915 10 0 0 0),
             (mk_datetime 21915 12 0 0 0, mk_datetime 21915 13 0 0 0)]"
    by (subst expand_window_single[OF _ _ within_examples(2)])
       (simp_all add: e mk_datetime_def timedelta_minutes_def HALF_HOUR_def)
  show ?thesis
    by (simp only: expand_windows.simps Let_def m ceil_examples 1 2 sum.case)
qed

section \<open>Concrete runs of the view\<close>

lemma example_is_valid: "is_valid example_query = Inr example_query"
  unfolding is_valid_def validate_def hour_field_ok_def example_query_def
  by (simp add: mk_datetime_def)

lemma example_format:
  "\<exists>hr. format_interviewer_busy_times_human_readable example_fromisoformat (\<lambda>dt. []) touching_schedules
     = Inr hr"
  unfolding format_interviewer_busy_times_human_readable_def touching_schedules_def
  by (simp add: person_busy_def format_block_def format_datetime_human_readable_def raw_start_def
      raw_end_def py_or_def dict_get_def parse_examples)

lemma example_view:
  "\<exists>payload. availability_view_get example_fromisoformat (\<lambda>dt. []) (\<lambda>ids. touching_schedules)
        (mk_datetime 21913 9 0 0 0) (Some example_template) example_query
      = (Inr (Response_200 payload), [[1, 2]])
    \<and> availableSlots payload = [(mk_datetime 21915 9 0 0 0, mk_datetime 21915 10 0 0 0),
                                 (mk_datetime 21915 12 0 0 0, mk_datetime 21915 13 0 0 0)]
    \<and> durationMinutes payload = 60"
proof -
  from example_format obtain hr where
    hr: "format_interviewer_busy_times_human_readable example_fromisoformat (\<lambda>dt. []) touching_schedules
           = Inr hr" ..
  have q: "q_start example_query = Some (mk_datetime 21915 9 0 0 0)"
    "q_end example_query = Some (mk_datetime 21915 13 0 0 0)"
    "q_start_hour example_query = Some 9" "q_end_hour example_query = Some 17"
    unfolding example_query_def by simp_all
  have t: "duration example_template = 60" "interviewers example_template = [1, 2]"
    unfolding example_template_def by simp_all
  have c: "\<not> mk_datetime 21915 13 0 0 0 \<le> mk_datetime 21915 9 0 0 0"
    "max (mk_datetime 21915 9 0 0 0) (mk_datetime 21913 9 0 0 0 + timedelta_hours 24)
       = mk_datetime 21915 9 0 0 0"
    unfolding mk_datetime_def timedelta_hours_def by simp_all
  show ?thesis
    unfolding availability_view_get_def Let_def example_is_valid
    by (simp add: q t c ceil_examples touching_windows_13 example_expand hr del: expand_windows.simps)
qed

lemma example_expand_floor:
  "expand_windows (timedelta_minutes 60) 9 17 (mk_datetime 21915 11 30 0 0) []
      [(mk_datetime 21915 9 0 0 0, mk_datetime 21915 10 0 0 0),
       (mk_datetime 21915 12 0 0 0, mk_datetime 21915 13 0 0 0)]
   = Inr [(mk_datetime 21915 12 0 0 0, mk_datetime 21915 13 0 0 0)]"
proof -
  have m: "max (mk_datetime 21915 9 0 0 0) (mk_datetime 21915 11 30 0 0) = mk_datetime 21915 11 30 0 0"
    "max (mk_datetime 21915 12 0 0 0) (mk_datetime 21915 11 30 0 0) = mk_datetime 21915 12 0 0 0"
    unfolding mk_datetime_def by simp_all
  have e: "mk_datetime 21915 12 0 0 0 + timedelta_minutes 60 = mk_datetime 21915 13 0 0 0"
    unfolding mk_datetime_def timedelta_minutes_def by simp
  have 1: "expand_window (timedelta_minutes 60) 9 17 (mk_datetime 21915 10 0 0 0 - timedelta_minutes 60)
        [] (mk_datetime 21915 11 30 0 0) = Inr []"
    by (rule expand_window_none) (simp add: mk_datetime_def timedelta_minutes_def)
  have 2: "expand_window (timedelta_minutes 60) 9 17 (mk_datetime 21915 13 0 0 0 - timedelta_minutes 60)
        [] (mk_datetime 21915 12 0 0 0)
      = Inr [(mk_datetime 21915 12 0 0 0, mk_datetime 21915 13 0 0 0)]"
    by (subst expand_window_single[OF _ _ within_examples(2)])
       (simp_all add: e mk_datetime_def timedelta_minutes_def HALF_HOUR_def)
  show ?thesis
    by (simp only: expand_windows.simps Let_def m ceil_examples 1 2 sum.case)
qed

lemma example_view_floor:
  "\<exists>payload. availability_view_get example_fromisoformat (\<lambda>dt. []) (\<lambda>ids. touching_schedules)
        (mk_datetime 21914 11 15 0 0) (Some example_template) example_query
      = (Inr (Response_200 payload), [[1, 2]])
    \<and> availableSlots payload = [(mk_datetime 21915 12 0 0 0, mk_datetime 21915 13 0 0 0)]"
proof -
  from example_format obtain hr where
    hr: "format_interviewer_busy_times_human_readable example_fromisoformat (\<lambda>dt. []) touching_schedules
           = Inr hr" ..
  have q: "q_start example_query = Some (mk_datetime 21915 9 0 0 0)"
    "q_end example_query = Some (mk_datetime 21915 13 0 0 0)"
    "q_start_hour example_query = Some 9" "q_end_hour example_query = Some 17"
    unfolding example_query_def by simp_all
  have t: "duration example_template = 60" "interviewers example_template = [1, 2]"
    unfolding example_template_def by simp_all
  have c: "\<not> mk_datetime 21915 13 0 0 0 \<le> mk_datetime 21915 9 0 0 0"
    "max (mk_datetime 21915 9 0 0 0) (mk_datetime 21914 11 15 0 0 + timedelta_hours 24)
       = mk_datetime 21915 11 15 0 0"
    unfolding mk_datetime_def timedelta_hours_def by simp_all
  show ?thesis
    unfolding availability_view_get_def Let_def example_is_valid
    by (simp add: q t c ceil_examples touching_windows_13 example_expand_floor hr del: expand_windows.simps)
qed

lemma person_intervals_examples:
  "person_intervals example_fromisoformat (touching_schedules ! 0)
     = [(mk_datetime 21915 10 0 0 0, mk_datetime 21915 11 0 0 0)]"
  "person_intervals example_fromisoformat (touching_schedules ! 1)
     = [(mk_datetime 21915 11 0 0 0, mk_datetime 21915 12 0 0 0)]"
  unfolding person_intervals_def touching_schedules_def
  by (simp_all add: person_busy_def List.map_filter_simps block_interval_def raw_start_def raw_end_def
      py_or_def dict_get_def parse_examples instant_of_def mk_datetime_def)

theorem all_free_witness:
  "\<not> overlaps (mk_datetime 21915 9 0 0 0, mk_datetime 21915 10 0 0 0)
       (mk_datetime 21915 10 0 0 0, mk_datetime 21915 11 0 0 0)
   \<and> \<not> overlaps (mk_datetime 21915 12 0 0 0, mk_datetime 21915 13 0 0 0)
       (mk_datetime 21915 11 0 0 0, mk_datetime 21915 12 0 0 0)
   \<and> snd (mk_datetime 21915 9 0 0 0, mk_datetime 21915 10 0 0 0)
       = fst (mk_datetime 21915 9 0 0 0, mk_datetime 21915 10 0 0 0) + timedelta_minutes 60"
proof -
  from example_view obtain payload where
    v: "availability_view_get example_fromisoformat (\<lambda>dt. []) (\<lambda>ids. touching_schedules)
        (mk_datetime 21913 9 0 0 0) (Some example_template) example_query
      = (Inr (Response_200 payload), [[1, 2]])"
    and s: "availableSlots payload = [(mk_datetime 21915 9 0 0 0, mk_datetime 21915 10 0 0 0),
                                 (mk_datetime 21915 12 0 0 0, mk_datetime 21915 13 0 0 0)]"
    and d: "durationMinutes payload = 60"
    by blast
  from all_free[OF v] have a: "\<forall>slot\<in>set (availableSlots payload).
      snd slot = fst slot + timedelta_minutes (durationMinutes payload)
      \<and> (\<forall>p\<in>set touching_schedules. \<forall>iv\<in>set (person_intervals example_fromisoformat p).
            \<not> overlaps slot iv)"
    by auto
  have p: "touching_schedules ! 0 \<in> set touching_schedules" "touching_schedules ! 1 \<in> set touching_schedules"
    unfolding touching_schedules_def by simp_all
  let ?s1 = "(mk_datetime 21915 9 0 0 0, mk_datetime 21915 10 0 0 0)"
  let ?s2 = "(mk_datetime 21915 12 0 0 0, mk_datetime 21915 13 0 0 0)"
  have m: "?s1 \<in> set (availableSlots payload)" "?s2 \<in> set (availableSlots payload)"
    unfolding s by simp_all
  from a m(1) p(1) have 1: "\<not> overlaps ?s1 (mk_datetime 21915 10 0 0 0, mk_datetime 21915 11 0 0 0)"
    using person_intervals_examples(1) by fastforce
  from a m(2) p(2) have 2: "\<not> overlaps ?s2 (mk_datetime 21915 11 0 0 0, mk_datetime 21915 12 0 0 0)"
    using person_intervals_examples(2) by fastforce
  from a m(1) have 3: "snd ?s1 = fst ?s1 + timedelta_minutes 60" unfolding d by blast
  from 1 2 3 show ?thesis by (intro conjI)
qed

theorem notice_floor_witness:
  "ceil_to_half_hour_boundary (mk_datetime 21914 11 15 0 0 + timedelta_hours 24)
     \<le> fst (mk_datetime 21915 12 0 0 0, mk_datetime 21915 13 0 0 0)"
proof -
  from example_view_floor obtain payload where
    v: "availability_view_get example_fromisoformat (\<lambda>dt. []) (\<lambda>ids. touching_schedules)
        (mk_datetime 21914 11 15 0 0) (Some example_template) example_query
      = (Inr (Response_200 payload), [[1, 2]])"
    and s: "availableSlots payload = [(mk_datetime 21915 12 0 0 0, mk_datetime 21915 13 0 0 0)]"
    by blast
  from notice_floor[OF v] show ?thesis unfolding s by simp
qed

theorem invalid_range_rejected_witness:
  "snd (availability_view_get example_fromisoformat (\<lambda>dt. []) (\<lambda>ids. touching_schedules)
          (mk_datetime 21915 0 0 0 0) (Some example_template) late_end_query) = []
   \<and> (\<forall>payload. fst (availability_view_get example_fromisoformat (\<lambda>dt. []) (\<lambda>ids. touching_schedules)
          (mk_datetime 21915 0 0 0 0) (Some example_template) late_end_query)
        \<noteq> Inr (Response_200 payload))"
proof -
  have h: "resolved_search_end (mk_datetime 21915 0 0 0 0) late_end_query
      \<le> resolved_search_start (mk_datetime 21915 0 0 0 0) late_end_query
      \<or> resolved_end_hour late_end_query \<le> resolved_start_hour late_end_query"
    unfolding resolved_search_end_def resolved_search_start_def late_end_query_def
    by (simp add: mk_datetime_def timedelta_hours_def)
  from invalid_range_rejected[OF h, of example_fromisoformat "\<lambda>dt. []" "\<lambda>ids. touching_schedules"
      example_template]
  obtain r where r: "availability_view_get example_fromisoformat (\<lambda>dt. []) (\<lambda>ids. touching_schedules)
      (mk_datetime 21915 0 0 0 0) (Some example_template) late_end_query = (r, [])"
    and e: "r = Inl ValidationError \<or> r = Inr (Response_400 ''end must be after start'')
                \<or> r = Inr (Response_400 ''end_hour must be after start_hour'')"
    by blast
  from e show ?thesis unfolding r by auto
qed

end
